theory Spec2Isabelle
  imports Main "HOL-Library.Sublist"
begin

section \<open>Python string primitives\<close>

text \<open>
  Python strings are modelled as \<open>string\<close> (lists of 8-bit characters); the
  operations below are the ASCII behaviour of the \<open>str\<close> methods the sources call.
\<close>

definition rstrip_chr :: "char \<Rightarrow> string \<Rightarrow> string" where
  \<comment> \<open>\<open>s.rstrip(c)\<close> for a one-character argument: every trailing \<open>c\<close> goes.\<close>
  "rstrip_chr c s = rev (dropWhile (\<lambda>x. x = c) (rev s))"

definition endswith :: "string \<Rightarrow> string \<Rightarrow> bool" where
  \<comment> \<open>\<open>s.endswith(suf)\<close>\<close>
  "endswith s suf = suffix suf s"

definition py_in :: "string \<Rightarrow> string \<Rightarrow> bool" where
  \<comment> \<open>\<open>sub in s\<close> on strings: \<open>sub\<close> occurs as a contiguous piece of \<open>s\<close>.\<close>
  "py_in sub s = sublist sub s"

definition ascii_lowercase :: string where
  "ascii_lowercase = ''abcdefghijklmnopqrstuvwxyz''"

definition ascii_uppercase :: string where
  "ascii_uppercase = ''ABCDEFGHIJKLMNOPQRSTUVWXYZ''"

definition upper_chr :: "char \<Rightarrow> char" where
  "upper_chr c = (case map_of (zip ascii_lowercase ascii_uppercase) c of Some u \<Rightarrow> u | None \<Rightarrow> c)"

definition lower_chr :: "char \<Rightarrow> char" where
  "lower_chr c = (case map_of (zip ascii_uppercase ascii_lowercase) c of Some l \<Rightarrow> l | None \<Rightarrow> c)"

definition upper :: "string \<Rightarrow> string" where
  \<comment> \<open>\<open>s.upper()\<close>\<close>
  "upper s = map upper_chr s"

definition lower :: "string \<Rightarrow> string" where
  "lower s = map lower_chr s"

definition digit_chr :: "nat \<Rightarrow> char" where
  "digit_chr d = ''0123456789'' ! d"

function str_nat :: "nat \<Rightarrow> string" where
  \<comment> \<open>\<open>str(n)\<close> of a non-negative integer: its decimal digits.\<close>
  "str_nat n = (if n < 10 then [digit_chr n] else str_nat (n div 10) @ [digit_chr (n mod 10)])"
  by pat_completeness auto
termination
  by (relation "measure id") auto

declare str_nat.simps [simp del]

definition truthy :: "string option \<Rightarrow> bool" where
  \<comment> \<open>Python truth of \<open>d.get(key)\<close> for a string-valued key: present and not empty.\<close>
  "truthy v = (case v of None \<Rightarrow> False | Some s \<Rightarrow> s \<noteq> [])"

definition truthy_int :: "int option \<Rightarrow> bool" where
  "truthy_int v = (case v of None \<Rightarrow> False | Some n \<Rightarrow> n \<noteq> 0)"

section \<open>Destination registry (Frontend/log\_generator\_ui.py)\<close>

text \<open>
  A persisted destination is a JSON object; the record has one optional field per key the
  code reads or writes (\<open>None\<close>: the key is absent). The request payload likewise.
  String-valued keys hold strings, \<open>port\<close> holds an integer.
\<close>

record dest =
  d_id :: "string option"
  d_type :: "string option"
  d_name :: "string option"
  d_url :: "string option"
  d_token :: "string option"
  d_ip :: "string option"
  d_port :: "int option"
  d_protocol :: "string option"

record payload =
  p_type :: "string option"
  p_name :: "string option"
  p_url :: "string option"
  p_token :: "string option"
  p_ip :: "string option"
  p_port :: "int option"
  p_protocol :: "string option"

definition empty_dest :: dest where
  "empty_dest = \<lparr>d_id = None, d_type = None, d_name = None, d_url = None, d_token = None,
     d_ip = None, d_port = None, d_protocol = None\<rparr>"

text \<open>
  What \<open>_save_destinations\<close> can do: write the list; fail to open the file (the file
  stays as it was); or fail during \<open>json.dump\<close> after \<open>open(..., 'w')\<close> truncated the
  file, which \<open>_load_destinations\<close> then reads as the empty list.
\<close>

datatype save_outcome = Saved | Open_failed | Dump_failed

text \<open>
  The environment of one request: whether the \<open>keyring\<close> module was importable
  (\<open>HAS_KEYRING\<close>), the exception text \<open>keyring.set_password\<close> or
  \<open>keyring.delete_password\<close> raises (if any), and what the save does.
\<close>

record env =
  has_keyring :: bool
  set_password_exc :: "string option"
  delete_password_exc :: "string option"
  save_result :: save_outcome

text \<open>
  The state: the list \<open>_load_destinations\<close> returns (a missing or unreadable file reads
  as \<open>[]\<close>) and the secrets held by the keyring under \<open>KEYRING_SERVICE\<close>.
\<close>

record state =
  dest_file :: "dest list"
  keyring :: "string \<Rightarrow> string option"

datatype py_exception = UnboundLocalError string

datatype response =
    Created string string string string
  | Error_response nat string
  | No_content
  | Unhandled py_exception

definition hec_base :: "string \<Rightarrow> string" where
  \<comment> \<open>lines 146-148\<close>
  "hec_base url =
     (let base = rstrip_chr CHR ''/'' url in
      if \<not> (endswith base ''/event'' \<or> endswith base ''/raw'' \<or> py_in ''/services/collector'' base)
      then base @ ''/services/collector''
      else base)"

definition same_name_type :: "string \<Rightarrow> string \<Rightarrow> dest \<Rightarrow> bool" where
  \<comment> \<open>line 160: \<open>d.get('name') == name and d.get('type') == dest_type\<close>\<close>
  "same_name_type name ty d = (d_name d = Some name \<and> d_type d = Some ty)"

fun update_first :: "('a \<Rightarrow> bool) \<Rightarrow> ('a \<Rightarrow> 'a) \<Rightarrow> 'a list \<Rightarrow> 'a list" where
  \<comment> \<open>In-place mutation of the first element \<open>next(...)\<close> finds.\<close>
  "update_first P f [] = []"
| "update_first P f (x # xs) = (if P x then f x # xs else x # update_first P f xs)"

definition msg_unavailable :: string where
  "msg_unavailable = ''Secure storage unavailable. Unable to save token. Please contact support.''"

definition msg_token_failed :: string where
  "msg_token_failed = ''Failed to save token securely. Please contact support.''"

definition msg_hec_required :: string where
  "msg_hec_required = ''name, url and token are required''"

definition msg_syslog_required :: string where
  "msg_syslog_required = ''name, ip, port, protocol (UDP/TCP) are required''"

definition save_and_reply :: "env \<Rightarrow> state \<Rightarrow> dest list \<Rightarrow> response \<Rightarrow> response \<times> state" where
  \<comment> \<open>lines 193-196: save the list, then build the reply.\<close>
  "save_and_reply e st items reply =
     (case save_result e of
        Saved \<Rightarrow> (reply, st\<lparr>dest_file := items\<rparr>)
      | Open_failed \<Rightarrow> (Error_response 500 ''Failed to save destination'', st)
      | Dump_failed \<Rightarrow> (Error_response 500 ''Failed to save destination'', st\<lparr>dest_file := []\<rparr>))"

definition upsert_hec :: "env \<Rightarrow> state \<Rightarrow> string \<Rightarrow> string \<Rightarrow> string \<Rightarrow> response \<times> state" where
  \<comment> \<open>lines 158-196 for \<open>dest_type == 'hec'\<close>, after validation.\<close>
  "upsert_hec e st name base token =
     (let items = dest_file st in
      case find (same_name_type name ''hec'') items of
        Some existing \<Rightarrow>
          (case d_id existing of
             None \<Rightarrow> (Error_response 500 msg_unavailable, st)
           | Some eid \<Rightarrow>
               if \<not> has_keyring e \<or> eid = [] then (Error_response 500 msg_unavailable, st)
               else (case set_password_exc e of
                  Some exc \<Rightarrow> (Error_response 500 msg_token_failed, st)
                | None \<Rightarrow>
                    save_and_reply e (st\<lparr>keyring := (keyring st)(eid \<mapsto> token)\<rparr>)
                      (update_first (same_name_type name ''hec'')
                         (\<lambda>d. d\<lparr>d_url := Some base, d_token := None\<rparr>) items)
                      (Created eid name ''hec'' base)))
      | None \<Rightarrow>
          (let dest_id = ''hec'' @ '':'' @ str_nat (length items + 1);
               entry = empty_dest\<lparr>d_id := Some dest_id, d_type := Some ''hec'',
                                   d_name := Some name, d_url := Some base\<rparr>
           in if \<not> has_keyring e then (Error_response 500 msg_unavailable, st)
              else (case set_password_exc e of
                  Some exc \<Rightarrow> (Error_response 500 msg_token_failed, st)
                | None \<Rightarrow>
                    save_and_reply e (st\<lparr>keyring := (keyring st)(dest_id \<mapsto> token)\<rparr>)
                      (items @ [entry]) (Created dest_id name ''hec'' base))))"

definition upsert_syslog :: "env \<Rightarrow> state \<Rightarrow> string \<Rightarrow> string \<Rightarrow> int \<Rightarrow> string \<Rightarrow> response \<times> state" where
  \<comment> \<open>lines 158-196 for \<open>dest_type == 'syslog'\<close>, after validation. The reply of line 196
      reads the local \<open>base\<close>, which only the HEC branch assigns.\<close>
  "upsert_syslog e st name ip port protocol =
     (let items = dest_file st in
      case find (same_name_type name ''syslog'') items of
        Some existing \<Rightarrow>
          save_and_reply e st
            (update_first (same_name_type name ''syslog'')
               (\<lambda>d. d\<lparr>d_ip := Some ip, d_port := Some port, d_protocol := Some protocol\<rparr>) items)
            (Unhandled (UnboundLocalError ''base''))
      | None \<Rightarrow>
          (let dest_id = ''syslog'' @ '':'' @ str_nat (length items + 1);
               entry = empty_dest\<lparr>d_id := Some dest_id, d_type := Some ''syslog'',
                                   d_name := Some name, d_ip := Some ip, d_port := Some port,
                                   d_protocol := Some protocol\<rparr>
           in save_and_reply e st (items @ [entry]) (Unhandled (UnboundLocalError ''base''))))"

definition create_destination :: "env \<Rightarrow> state \<Rightarrow> payload \<Rightarrow> response \<times> state" where
  \<comment> \<open>lines 134-196\<close>
  "create_destination e st p =
     (if p_type p = Some ''hec'' then
        (case (p_name p, p_url p, p_token p) of
           (Some name, Some url, Some token) \<Rightarrow>
             if name = [] \<or> url = [] \<or> token = [] then (Error_response 400 msg_hec_required, st)
             else upsert_hec e st name (hec_base url) token
         | _ \<Rightarrow> (Error_response 400 msg_hec_required, st))
      else if p_type p = Some ''syslog'' then
        (let protocol = upper (case p_protocol p of None \<Rightarrow> [] | Some s \<Rightarrow> s) in
         case (p_name p, p_ip p, p_port p) of
           (Some name, Some ip, Some port) \<Rightarrow>
             if name = [] \<or> ip = [] \<or> port = 0 \<or> protocol \<notin> {''UDP'', ''TCP''}
             then (Error_response 400 msg_syslog_required, st)
             else upsert_syslog e st name ip port protocol
         | _ \<Rightarrow> (Error_response 400 msg_syslog_required, st))
      else (Error_response 400 ''Unsupported destination type'', st))"

definition delete_destination :: "env \<Rightarrow> state \<Rightarrow> string \<Rightarrow> response \<times> state" where
  \<comment> \<open>lines 198-211: the keyring entry goes first (best effort), then the file entry.\<close>
  "delete_destination e st dest_id =
     (let st1 = (if has_keyring e \<and> delete_password_exc e = None
                 then st\<lparr>keyring := (keyring st)(dest_id := None)\<rparr> else st);
          new_items = filter (\<lambda>d. d_id d \<noteq> Some dest_id) (dest_file st)
      in case save_result e of
           Saved \<Rightarrow> (No_content, st1\<lparr>dest_file := new_items\<rparr>)
         | Open_failed \<Rightarrow> (Error_response 500 ''Failed to delete destination'', st1)
         | Dump_failed \<Rightarrow> (Error_response 500 ''Failed to delete destination'', st1\<lparr>dest_file := []\<rparr>))"

definition name_type_unique :: "dest list \<Rightarrow> bool" where
  "name_type_unique items = distinct (map (\<lambda>d. (d_name d, d_type d)) items)"

definition tokens_kept :: "dest list \<Rightarrow> dest list \<Rightarrow> bool" where
  "tokens_kept old new = (d_token ` set new \<subseteq> insert None (d_token ` set old))"

text \<open>Example inputs and the states the two routes can reach from an empty file.\<close>

definition env_ok :: env where
  "env_ok = \<lparr>has_keyring = True, set_password_exc = None, delete_password_exc = None, save_result = Saved\<rparr>"

definition env_no_keyring :: env where
  "env_no_keyring = \<lparr>has_keyring = False, set_password_exc = None, delete_password_exc = None, save_result = Saved\<rparr>"

definition empty_state :: state where
  "empty_state = \<lparr>dest_file = [], keyring = (\<lambda>k. None)\<rparr>"

definition hec_payload :: "string \<Rightarrow> string \<Rightarrow> string \<Rightarrow> payload" where
  "hec_payload name url token = \<lparr>p_type = Some ''hec'', p_name = Some name, p_url = Some url,
     p_token = Some token, p_ip = None, p_port = None, p_protocol = None\<rparr>"

definition syslog_payload :: "string \<Rightarrow> string \<Rightarrow> int \<Rightarrow> string \<Rightarrow> payload" where
  "syslog_payload name ip port protocol = \<lparr>p_type = Some ''syslog'', p_name = Some name, p_url = None,
     p_token = None, p_ip = Some ip, p_port = Some port, p_protocol = Some protocol\<rparr>"

inductive reachable :: "state \<Rightarrow> bool" where
  start: "reachable \<lparr>dest_file = [], keyring = k\<rparr>"
| create: "reachable st \<Longrightarrow> reachable (snd (create_destination e st p))"
| delete: "reachable st \<Longrightarrow> reachable (snd (delete_destination e st i))"

section \<open>Streaming delivery (Frontend/log\_generator\_ui.py, generate\_logs and run\_scenario)\<close>

definition nl :: char where
  "nl = CHR 0x0A"

definition whitespace :: "char list" where
  \<comment> \<open>The ASCII characters \<open>str.isspace\<close> accepts.\<close>
  "whitespace = [CHR 0x09, CHR 0x0A, CHR 0x0B, CHR 0x0C, CHR 0x0D, CHR 0x1C, CHR 0x1D, CHR 0x1E,
     CHR 0x1F, CHR 0x20]"

definition is_space :: "char \<Rightarrow> bool" where
  "is_space c = (c \<in> set whitespace)"

definition strip :: "string \<Rightarrow> string" where
  \<comment> \<open>\<open>s.strip()\<close>\<close>
  "strip s = rev (dropWhile is_space (rev (dropWhile is_space s)))"

definition str_int :: "int \<Rightarrow> string" where
  \<comment> \<open>\<open>str(i)\<close>\<close>
  "str_int i = (if i < 0 then ''-'' @ str_nat (nat (- i)) else str_nat (nat i))"

fun replace_from :: "string \<Rightarrow> string \<Rightarrow> string \<Rightarrow> string" where
  \<comment> \<open>The scan of \<open>s.replace(old, new)\<close> for a non-empty \<open>old\<close>: leftmost occurrence first,
      the search goes on after the occurrence replaced.\<close>
  "replace_from old new [] = []"
| "replace_from old new (c # cs) =
     (if prefix old (c # cs) then new @ replace_from old new (drop (length old - 1) cs)
      else c # replace_from old new cs)"

definition py_replace :: "string \<Rightarrow> string \<Rightarrow> string \<Rightarrow> string" where
  \<comment> \<open>\<open>s.replace(old, new)\<close>; an empty \<open>old\<close> matches before every character and at the end.\<close>
  "py_replace old new s =
     (if old = [] then new @ concat (map (\<lambda>c. c # new) s) else replace_from old new s)"

definition sanitize :: "string \<Rightarrow> string \<Rightarrow> string \<Rightarrow> string \<Rightarrow> string" where
  \<comment> \<open>lines 573-576 and 581-584\<close>
  "sanitize hec_token hec_url normalized_hec_url line =
     py_replace normalized_hec_url ''<hec_url>''
       (py_replace hec_url ''<hec_url>'' (py_replace hec_token ''***'' line))"

definition normalize_hec_url :: "string \<Rightarrow> string" where
  \<comment> \<open>lines 538-547, \<open>_normalize_hec_url\<close>\<close>
  "normalize_hec_url u =
     (if u = [] then u
      else let base = rstrip_chr CHR ''/'' u in
        if endswith base ''/event'' \<or> endswith base ''/raw'' then base
        else if py_in ''/services/collector'' base then base
        else base @ ''/services/collector'')"

datatype sock_kind = Udp | Tcp

text \<open>
  What a streaming run does, in order: the lines it yields to the caller and its calls on the
  socket and the child process.
\<close>

datatype action =
    Yield string
  | Socket_open sock_kind
  | Connect string int
  | Sendto string string int
  | Sendall string
  | Socket_close
  | Popen_generator string int
  | Popen_hec_sender string int
  | Popen_scenario string
  | Terminate
  | Wait

datatype popen_failure = File_not_found | Other_exception string

text \<open>
  The world of one streaming request: the keyring, the file system, the network and the child
  process. \<open>child_stdout\<close> is what successive \<open>readline\<close> calls return; the loop
  \<open>iter(readline, '')\<close> ends at the first empty string.
\<close>

record world =
  kr_available :: bool
  get_password_exc :: "string option"
  script_exists :: bool
  sender_exists :: bool
  connect_exc :: "string option"
  popen_exc :: "popen_failure option"
  child_stdout :: "string list"
  child_stderr :: string
  child_returncode :: int
  send_exc :: "nat \<Rightarrow> string option"

record gen_request =
  g_destination :: string
  g_script :: string
  g_count :: int
  g_ip :: "string option"
  g_port :: "int option"
  g_protocol :: "string option"
  g_product :: "string option"
  g_destination_id :: "string option"
  g_hec_destination_id :: "string option"
  g_syslog_destination_id :: "string option"

datatype http = Json_error nat string | Stream "action list"

definition lines_read :: "world \<Rightarrow> string list" where
  "lines_read w = takeWhile (\<lambda>l. l \<noteq> []) (child_stdout w)"

definition finally_block :: "bool \<Rightarrow> action list" where
  \<comment> \<open>lines 593-596; the argument is \<open>sock\<close> being set.\<close>
  "finally_block sock = Yield (''INFO: Log generation complete.'' @ [nl]) # (if sock then [Socket_close] else [])"

definition popen_handlers :: "popen_failure \<Rightarrow> action list" where
  \<comment> \<open>lines 588-591\<close>
  "popen_handlers f =
     (case f of
        File_not_found \<Rightarrow>
          [Yield (''ERROR: Python executable not found. Please ensure Python is in your system'' @ [CHR 0x27]
                  @ ''s PATH.'' @ [nl])]
      | Other_exception e \<Rightarrow> [Yield (''ERROR: An unexpected error occurred: '' @ e @ [nl])])"

fun send_loop :: "world \<Rightarrow> sock_kind \<Rightarrow> string \<Rightarrow> int \<Rightarrow> nat \<Rightarrow> string list \<Rightarrow> action list" where
  \<comment> \<open>lines 475-488; \<open>k\<close> counts the lines sent so far.\<close>
  "send_loop w kind ip port k [] = []"
| "send_loop w kind ip port k (line # rest) =
     (let log_line = strip line in
      case send_exc w k of
        Some e \<Rightarrow>
          [Yield (''ERROR: Failed to send log to syslog server. Details: '' @ e @ [nl]), Terminate]
      | None \<Rightarrow>
          (case kind of Udp \<Rightarrow> Sendto (log_line @ [nl]) ip port | Tcp \<Rightarrow> Sendall (log_line @ [nl]))
          # Yield (''LOG: '' @ log_line @ [nl])
          # send_loop w kind ip port (Suc k) rest)"

definition resolve_syslog :: "dest list \<Rightarrow> gen_request \<Rightarrow> string + (string option \<times> int option \<times> string)" where
  \<comment> \<open>lines 433-446: the stored destination when an id is given, the request's own fields
      otherwise. \<open>Inl\<close> is the error line.\<close>
  "resolve_syslog items rq =
     (let resolved = (if truthy (g_destination_id rq) then g_destination_id rq else g_syslog_destination_id rq)
      in if truthy resolved then
           (case find (\<lambda>d. d_id d = resolved \<and> d_type d = Some ''syslog'') items of
              None \<Rightarrow> Inl (''ERROR: Selected syslog destination not found.'' @ [nl])
            | Some chosen \<Rightarrow>
                Inr (d_ip chosen,
                     Some (case d_port chosen of None \<Rightarrow> 0 | Some n \<Rightarrow> n),
                     upper (case d_protocol chosen of None \<Rightarrow> [] | Some s \<Rightarrow> s)))
         else Inr (g_ip rq, g_port rq, upper (case g_protocol rq of None \<Rightarrow> [] | Some s \<Rightarrow> s)))"

definition stream_syslog :: "world \<Rightarrow> dest list \<Rightarrow> gen_request \<Rightarrow> action list" where
  \<comment> \<open>lines 429-494 and 588-596\<close>
  "stream_syslog w items rq =
     (case resolve_syslog items rq of
        Inl err \<Rightarrow> Yield err # finally_block False
      | Inr (ip_opt, port_opt, protocol) \<Rightarrow>
          if \<not> truthy ip_opt \<or> \<not> truthy_int port_opt \<or> protocol \<notin> {''UDP'', ''TCP''}
          then Yield (''ERROR: Missing or invalid syslog destination details.'' @ [nl]) # finally_block False
          else
            (let ip = (case ip_opt of None \<Rightarrow> [] | Some s \<Rightarrow> s);
                 port = (case port_opt of None \<Rightarrow> 0 | Some n \<Rightarrow> n);
                 kind = (if protocol = ''UDP'' then Udp else Tcp);
                 opened = (case kind of Udp \<Rightarrow> [Socket_open Udp] | Tcp \<Rightarrow> [Socket_open Tcp, Connect ip port])
             in if kind = Tcp \<and> connect_exc w \<noteq> None
                then opened
                     @ [Yield (''ERROR: Could not connect to TCP syslog server at '' @ ip @ '':'' @ str_int port
                               @ ''. Details: '' @ (case connect_exc w of None \<Rightarrow> [] | Some e \<Rightarrow> e) @ [nl])]
                     @ finally_block True
                else opened
                     @ [Yield (''INFO: Starting log generation...'' @ [nl])]
                     @ (case popen_exc w of
                          Some f \<Rightarrow> popen_handlers f
                        | None \<Rightarrow>
                            [Popen_generator (g_script rq) (g_count rq)]
                            @ send_loop w kind ip port 0 (lines_read w)
                            @ (if child_stderr w \<noteq> []
                               then [Yield (''ERROR: Script execution produced errors:'' @ [nl] @ child_stderr w @ [nl])]
                               else [])
                            @ [Wait])
                     @ finally_block True))"

definition choose_hec :: "dest list \<Rightarrow> gen_request \<Rightarrow> dest option" where
  \<comment> \<open>lines 503-509: the destination named, else the first HEC destination saved.\<close>
  "choose_hec items rq =
     (let resolved = (if truthy (g_destination_id rq) then g_destination_id rq else g_hec_destination_id rq);
          chosen = (if truthy resolved
                    then find (\<lambda>d. d_id d = resolved \<and> d_type d = Some ''hec'') items else None)
      in case chosen of
           Some d \<Rightarrow> Some d
         | None \<Rightarrow> find (\<lambda>d. d_type d = Some ''hec'') items)"

definition get_password :: "world \<Rightarrow> (string \<Rightarrow> string option) \<Rightarrow> string \<Rightarrow> string option" where
  \<comment> \<open>\<open>keyring.get_password\<close> inside \<open>try\<close>: \<open>None\<close> when it raises or holds nothing.\<close>
  "get_password w kr i = (case get_password_exc w of Some e \<Rightarrow> None | None \<Rightarrow> kr i)"

definition stream_hec :: "world \<Rightarrow> state \<Rightarrow> gen_request \<Rightarrow> action list" where
  \<comment> \<open>lines 496-586 and 588-596\<close>
  "stream_hec w st rq =
     (if \<not> truthy (g_product rq) then Yield (''ERROR: Missing product id for HEC.'' @ [nl]) # finally_block False
      else case choose_hec (dest_file st) rq of
        None \<Rightarrow>
          Yield (''ERROR: No HEC destination configured. Add one in Settings > Destinations.'' @ [nl])
          # finally_block False
      | Some chosen \<Rightarrow>
          if \<not> kr_available w \<or> \<not> truthy (d_id chosen)
          then Yield (''ERROR: Secure token storage unavailable. Cannot access HEC token. Please contact support.''
                      @ [nl]) # finally_block False
          else
            (let hec_token = get_password w (keyring st) (case d_id chosen of None \<Rightarrow> [] | Some i \<Rightarrow> i) in
             if \<not> truthy (d_url chosen) \<or> \<not> truthy hec_token
             then Yield (''ERROR: Selected HEC destination is incomplete or token missing from secure storage. Please contact support.''
                         @ [nl]) # finally_block False
             else
               (let url = (case d_url chosen of None \<Rightarrow> [] | Some u \<Rightarrow> u);
                    token = (case hec_token of None \<Rightarrow> [] | Some t \<Rightarrow> t);
                    normalized = normalize_hec_url url
                in Yield (''INFO: Starting HEC send...'' @ [nl])
                   # (if \<not> sender_exists w then Yield (''ERROR: HEC sender not found.'' @ [nl]) # finally_block False
                      else (case popen_exc w of
                              Some f \<Rightarrow> popen_handlers f
                            | None \<Rightarrow>
                                [Popen_hec_sender (case g_product rq of None \<Rightarrow> [] | Some p \<Rightarrow> p) (g_count rq)]
                                @ map (\<lambda>line. Yield (sanitize token url normalized line)) (lines_read w)
                                @ (if child_stderr w \<noteq> []
                                   then [Yield (''ERROR: HEC sender errors:'' @ [nl]
                                                @ sanitize token url normalized (child_stderr w) @ [nl])]
                                   else [])
                                @ [Wait])
                           @ finally_block False))))"

definition generate_logs :: "world \<Rightarrow> state \<Rightarrow> gen_request \<Rightarrow> http" where
  \<comment> \<open>lines 406-598\<close>
  "generate_logs w st rq =
     (if g_destination rq = ''syslog'' \<and> \<not> script_exists w then Json_error 400 ''Invalid script name or path''
      else Stream (if g_destination rq = ''syslog'' then stream_syslog w (dest_file st) rq
                   else if g_destination rq = ''hec'' then stream_hec w st rq
                   else finally_block False))"

record scenario_request =
  s_scenario_id :: "string option"
  s_destination_id :: "string option"

definition id_to_file :: "(string \<times> string) list" where
  \<comment> \<open>lines 345-357\<close>
  "id_to_file =
     [(''attack_scenario_orchestrator'', ''attack_scenario_orchestrator.py''),
      (''enterprise_attack_scenario'', ''enterprise_attack_scenario.py''),
      (''enterprise_attack_scenario_10min'', ''enterprise_attack_scenario_10min.py''),
      (''enterprise_scenario_sender'', ''enterprise_scenario_sender.py''),
      (''enterprise_scenario_sender_10min'', ''enterprise_scenario_sender_10min.py''),
      (''showcase_attack_scenario'', ''showcase_attack_scenario.py''),
      (''showcase_scenario_sender'', ''showcase_scenario_sender.py''),
      (''quick_scenario'', ''quick_scenario.py''),
      (''quick_scenario_simple'', ''quick_scenario_simple.py''),
      (''scenario_hec_sender'', ''scenario_hec_sender.py''),
      (''star_trek_integration_test'', ''star_trek_integration_test.py'')]"

definition stream_scenario :: "world \<Rightarrow> string \<Rightarrow> action list" where
  \<comment> \<open>lines 341-395: every line the child prints is yielded as it is.\<close>
  "stream_scenario w scenario_id =
     Yield (''INFO: Starting scenario execution...'' @ [nl])
     # (let filename = (case map_of id_to_file scenario_id of Some f \<Rightarrow> f | None \<Rightarrow> scenario_id @ ''.py'')
        in if \<not> script_exists w then [Yield (''ERROR: Scenario script not found: '' @ filename @ [nl])]
           else Yield (''INFO: Executing '' @ filename @ ''...'' @ [nl])
                # (case popen_exc w of
                     Some f \<Rightarrow>
                       [Yield (''ERROR: Scenario execution failed: ''
                               @ (case f of File_not_found \<Rightarrow> ''[Errno 2] No such file or directory: ''
                                      @ [CHR 0x27] @ ''python'' @ [CHR 0x27]
                                    | Other_exception e \<Rightarrow> e) @ [nl])]
                   | None \<Rightarrow>
                       [Popen_scenario filename]
                       @ map Yield (lines_read w)
                       @ [Wait,
                          if child_returncode w = 0 then Yield (''INFO: Scenario execution complete'' @ [nl])
                          else Yield (''ERROR: Scenario exited with code '' @ str_int (child_returncode w) @ [nl])]))"

definition run_scenario :: "world \<Rightarrow> state \<Rightarrow> scenario_request \<Rightarrow> http" where
  \<comment> \<open>lines 309-397\<close>
  "run_scenario w st rq =
     (if \<not> truthy (s_scenario_id rq) then Json_error 400 ''scenario_id is required''
      else if \<not> truthy (s_destination_id rq) then Json_error 400 ''destination_id is required''
      else case find (\<lambda>d. d_id d = s_destination_id rq) (dest_file st) of
        None \<Rightarrow> Json_error 404 ''Destination not found''
      | Some chosen \<Rightarrow>
          if d_type chosen \<noteq> Some ''hec'' then Json_error 400 ''Scenarios currently only support HEC destinations''
          else
            (let hec_token = (if kr_available w \<and> truthy (d_id chosen)
                              then get_password w (keyring st) (case d_id chosen of None \<Rightarrow> [] | Some i \<Rightarrow> i)
                              else None)
             in if \<not> truthy (d_url chosen) \<or> \<not> truthy hec_token
                then Json_error 400 ''HEC destination incomplete or token missing''
                else Stream (stream_scenario w (case s_scenario_id rq of None \<Rightarrow> [] | Some s \<Rightarrow> s))))"

definition yields :: "action list \<Rightarrow> string list" where
  "yields tr = concat (map (\<lambda>a. case a of Yield s \<Rightarrow> [s] | _ \<Rightarrow> []) tr)"

text \<open>Example requests and worlds for the streaming routes.\<close>

definition tcp_request :: gen_request where
  "tcp_request = \<lparr>g_destination = ''syslog'', g_script = ''network/fw.py'', g_count = 3,
     g_ip = Some ''10.0.0.5'', g_port = Some 514, g_protocol = Some ''tcp'', g_product = None,
     g_destination_id = None, g_hec_destination_id = None, g_syslog_destination_id = None\<rparr>"

definition world_refused :: world where
  "world_refused = \<lparr>kr_available = True, get_password_exc = None, script_exists = True, sender_exists = True,
     connect_exc = Some ''[Errno 111] Connection refused'', popen_exc = None,
     child_stdout = [''a'' @ [nl], ''b'' @ [nl]], child_stderr = [], child_returncode = 0,
     send_exc = (\<lambda>k. None)\<rparr>"

definition state_prod :: state where
  "state_prod = \<lparr>dest_file = [\<lparr>d_id = Some ''hec:1'', d_type = Some ''hec'', d_name = Some ''prod'',
       d_url = Some ''https://example.com/services/collector'', d_token = None, d_ip = None,
       d_port = None, d_protocol = None\<rparr>],
     keyring = (\<lambda>k. None)(''hec:1'' \<mapsto> ''abc'')\<rparr>"

definition world_echo :: "string list \<Rightarrow> world" where
  "world_echo out = \<lparr>kr_available = True, get_password_exc = None, script_exists = True, sender_exists = True,
     connect_exc = None, popen_exc = None, child_stdout = out, child_stderr = [], child_returncode = 0,
     send_exc = (\<lambda>k. None)\<rparr>"

definition scenario_request_prod :: scenario_request where
  "scenario_request_prod = \<lparr>s_scenario_id = Some ''quick_scenario'', s_destination_id = Some ''hec:1''\<rparr>"

definition state_token_hec :: state where
  "state_token_hec = state_prod\<lparr>keyring := (\<lambda>k. None)(''hec:1'' \<mapsto> ''hec'')\<rparr>"

definition hec_request :: gen_request where
  "hec_request = \<lparr>g_destination = ''hec'', g_script = [], g_count = 1,
     g_ip = None, g_port = None, g_protocol = None, g_product = Some ''okta'',
     g_destination_id = Some ''hec:1'', g_hec_destination_id = None, g_syslog_destination_id = None\<rparr>"

section \<open>Regular expressions as the \<open>re\<close> module runs them\<close>

text \<open>
  The patterns of the sources, as syntax trees, and a backtracking matcher: \<open>rx_run\<close> lists
  the states reachable by matching a pattern from a state, in the order the engine tries them
  (greedy repetition first). A state is the character before the position (\<open>None\<close> at the
  start of the string) and the rest of the string.
\<close>

datatype atom = Chr char | Dot | Not_in "char list" | Digit | Space

datatype rx = Atom atom | Bol | Eol | Seq rx rx | Opt rx | Star rx

record flags =
  ignorecase :: bool
  multiline :: bool
  dotall :: bool

definition is_digit :: "char \<Rightarrow> bool" where
  "is_digit c = (c \<in> set ''0123456789'')"

fun atom_ok :: "flags \<Rightarrow> atom \<Rightarrow> char \<Rightarrow> bool" where
  "atom_ok f (Chr a) c = (if ignorecase f then lower_chr c = lower_chr a else c = a)"
| "atom_ok f Dot c = (dotall f \<or> c \<noteq> nl)"
| "atom_ok f (Not_in cs) c =
     (if ignorecase f then lower_chr c \<notin> lower_chr ` set cs \<and> upper_chr c \<notin> upper_chr ` set cs
      else c \<notin> set cs)"
| "atom_ok f Digit c = is_digit c"
| "atom_ok f Space c = is_space c"

type_synonym mstate = "char option \<times> string"

function rx_run :: "flags \<Rightarrow> rx \<Rightarrow> mstate \<Rightarrow> mstate list" where
  "rx_run f (Atom a) (p, s) =
     (case s of [] \<Rightarrow> [] | c # cs \<Rightarrow> if atom_ok f a c then [(Some c, cs)] else [])"
| "rx_run f Bol (p, s) = (if p = None \<or> (multiline f \<and> p = Some nl) then [(p, s)] else [])"
| "rx_run f Eol (p, s) =
     (if s = [] \<or> s = [nl] \<or> (multiline f \<and> s \<noteq> [] \<and> hd s = nl) then [(p, s)] else [])"
| "rx_run f (Seq r1 r2) (p, s) = concat (map (rx_run f r2) (rx_run f r1 (p, s)))"
| "rx_run f (Opt r) (p, s) = rx_run f r (p, s) @ [(p, s)]"
| "rx_run f (Star r) (p, s) =
     concat (map (\<lambda>st. if length (snd st) < length s then rx_run f (Star r) st else [])
               (rx_run f r (p, s)))
     @ [(p, s)]"
  by pat_completeness auto
termination
  by (relation "measures [\<lambda>(f, r, st). size r, \<lambda>(f, r, st). length (snd st)]") auto

definition re_match :: "flags \<Rightarrow> rx \<Rightarrow> string \<Rightarrow> bool" where
  \<comment> \<open>\<open>re.match(pattern, s, flags)\<close> is not \<open>None\<close>: a match at the start of \<open>s\<close>.\<close>
  "re_match f r s = (rx_run f r (None, s) \<noteq> [])"

function re_findall_from :: "flags \<Rightarrow> rx \<Rightarrow> char option \<Rightarrow> string \<Rightarrow> string list" where
  \<comment> \<open>The scan of \<open>re.findall\<close> for a pattern without groups: at each position the first
      match the engine finds; after a match the scan goes on where it ended, else one character
      further. An empty match is recorded and the scan moves one character on.\<close>
  "re_findall_from f r p s =
     (case rx_run f r (p, s) of
        [] \<Rightarrow> (case s of [] \<Rightarrow> [] | c # cs \<Rightarrow> re_findall_from f r (Some c) cs)
      | st # alternatives \<Rightarrow>
          if length (snd st) < length s
          then take (length s - length (snd st)) s # re_findall_from f r (fst st) (snd st)
          else [] # (case s of [] \<Rightarrow> [] | c # cs \<Rightarrow> re_findall_from f r (Some c) cs))"
  by pat_completeness auto
termination
  by (relation "measure (\<lambda>(f, r, p, s). length s)") auto

definition re_findall :: "flags \<Rightarrow> rx \<Rightarrow> string \<Rightarrow> string list" where
  "re_findall f r s = re_findall_from f r None s"

definition lits :: "string \<Rightarrow> rx \<Rightarrow> rx" where
  \<comment> \<open>A run of literal characters, then the rest of the pattern.\<close>
  "lits w r = foldr (\<lambda>c. Seq (Atom (Chr c))) w r"

definition plus_rx :: "rx \<Rightarrow> rx" where
  \<comment> \<open>\<open>r+\<close>\<close>
  "plus_rx r = Seq r (Star r)"

text \<open>What a match means, independent of the order of search.\<close>

inductive star_rel :: "(char option \<Rightarrow> string \<Rightarrow> string \<Rightarrow> bool) \<Rightarrow> char option \<Rightarrow> string \<Rightarrow> string \<Rightarrow> bool"
  for R :: "char option \<Rightarrow> string \<Rightarrow> string \<Rightarrow> bool" where
  star_nil: "star_rel R p [] rest"
| star_step: "R p u (v @ rest) \<Longrightarrow> u \<noteq> [] \<Longrightarrow> star_rel R (Some (last u)) v rest \<Longrightarrow> star_rel R p (u @ v) rest"

definition lastp :: "char option \<Rightarrow> string \<Rightarrow> char option" where
  "lastp p w = (if w = [] then p else Some (last w))"

primrec sem :: "flags \<Rightarrow> rx \<Rightarrow> char option \<Rightarrow> string \<Rightarrow> string \<Rightarrow> bool" where
  \<comment> \<open>\<open>sem f r p w rest\<close>: the pattern \<open>r\<close> matches the word \<open>w\<close> when \<open>p\<close> precedes it and
      \<open>rest\<close> follows it.\<close>
  "sem f (Atom a) = (\<lambda>p w rest. \<exists>c. w = [c] \<and> atom_ok f a c)"
| "sem f Bol = (\<lambda>p w rest. w = [] \<and> (p = None \<or> (multiline f \<and> p = Some nl)))"
| "sem f Eol = (\<lambda>p w rest. w = [] \<and> (rest = [] \<or> rest = [nl] \<or> (multiline f \<and> rest \<noteq> [] \<and> hd rest = nl)))"
| "sem f (Seq r1 r2) = (\<lambda>p w rest. \<exists>u v. w = u @ v \<and> sem f r1 p u (v @ rest) \<and> sem f r2 (lastp p u) v rest)"
| "sem f (Opt r) = (\<lambda>p w rest. w = [] \<or> sem f r p w rest)"
| "sem f (Star r) = star_rel (sem f r)"

section \<open>Format classifier and normalizers (event\_generators/vibelog\_ui.py)\<close>

definition flags_ic :: flags where
  \<comment> \<open>\<open>re.IGNORECASE\<close>\<close>
  "flags_ic = \<lparr>ignorecase = True, multiline = False, dotall = False\<rparr>"

definition flags_ms :: flags where
  \<comment> \<open>\<open>re.MULTILINE | re.DOTALL\<close>\<close>
  "flags_ms = \<lparr>ignorecase = False, multiline = True, dotall = True\<rparr>"

definition not_braces :: rx where
  \<comment> \<open>\<open>[^{}]*\<close>\<close>
  "not_braces = Star (Atom (Not_in ''{}''))"

definition json_pattern_flat :: rx where
  \<comment> \<open>line 81: \<open>\{[^{}]*\}\<close>\<close>
  "json_pattern_flat = Seq (Atom (Chr CHR ''{'')) (Seq not_braces (Atom (Chr CHR ''}'')))"

definition detect_log_format :: "string \<Rightarrow> string" where
  \<comment> \<open>lines 79-87\<close>
  "detect_log_format output =
     (let json_matches = re_findall flags_ms json_pattern_flat output
      in if length json_matches > 2 then ''JSON'' else ''RAW'')"

definition colon_end :: rx where
  \<comment> \<open>\<open>:?$\<close>\<close>
  "colon_end = Seq (Opt (Atom (Chr CHR '':''))) Eol"

definition any_run :: rx where
  \<comment> \<open>\<open>.*\<close>\<close>
  "any_run = Star (Atom Dot)"

definition skip_patterns :: "rx list" where
  \<comment> \<open>lines 95-106\<close>
  "skip_patterns =
     [Seq Bol (Seq (plus_rx (Atom (Chr CHR ''=''))) Eol),
      Seq Bol (Seq (plus_rx (Atom (Chr CHR ''-''))) Eol),
      Seq Bol (Seq any_run (lits ''Sample'' (Seq any_run (lits ''Events'' (Seq any_run colon_end))))),
      Seq Bol (lits ''Sample'' (Seq any_run (lits ''logs'' colon_end))),
      Seq Bol (lits ''Traffic logs'' colon_end),
      Seq Bol (lits ''Threat logs'' colon_end),
      Seq Bol (lits ''Traffic log'' colon_end),
      Seq Bol (lits ''Threat log'' colon_end),
      Seq Bol (lits ''Event '' (Seq (plus_rx (Atom Digit)) colon_end)),
      Seq Bol (Seq (Star (Atom Space)) Eol)]"

fun split_when :: "(char \<Rightarrow> bool) \<Rightarrow> string \<Rightarrow> string list" where
  \<comment> \<open>The pieces between separator characters, empty pieces included.\<close>
  "split_when P [] = [[]]"
| "split_when P (c # cs) =
     (if P c then [] # split_when P cs
      else (case split_when P cs of [] \<Rightarrow> [[c]] | w # ws \<Rightarrow> (c # w) # ws))"

definition split_nl :: "string \<Rightarrow> string list" where
  \<comment> \<open>\<open>s.split('\n')\<close>\<close>
  "split_nl s = split_when (\<lambda>c. c = nl) s"

definition py_split :: "string \<Rightarrow> string list" where
  \<comment> \<open>\<open>s.split()\<close>: the pieces between runs of whitespace.\<close>
  "py_split s = filter (\<lambda>w. w \<noteq> []) (split_when is_space s)"

fun join :: "string \<Rightarrow> string list \<Rightarrow> string" where
  \<comment> \<open>\<open>sep.join(pieces)\<close>\<close>
  "join sep [] = []"
| "join sep [x] = x"
| "join sep (x # y # ys) = x @ sep @ join sep (y # ys)"

fun should_skip :: "rx list \<Rightarrow> string \<Rightarrow> bool" where
  \<comment> \<open>lines 110-114: the inner loop over the patterns, with its \<open>break\<close>.\<close>
  "should_skip [] t = False"
| "should_skip (pattern # patterns) t = (if re_match flags_ic pattern t then True else should_skip patterns t)"

fun clean_loop :: "string list \<Rightarrow> string list" where
  \<comment> \<open>lines 108-117: the loop over the lines; a kept line is appended as it is.\<close>
  "clean_loop [] = []"
| "clean_loop (line # rest) =
     (if \<not> should_skip skip_patterns (strip line) \<and> strip line \<noteq> [] then line # clean_loop rest
      else clean_loop rest)"

definition clean_raw_logs :: "string \<Rightarrow> string \<Rightarrow> string" where
  \<comment> \<open>lines 89-119; \<open>product_name\<close> is not used by the code.\<close>
  "clean_raw_logs output product_name = join [nl] (clean_loop (split_nl output))"

text \<open>
  The decorative lines in the spec's words, for a line \<open>t\<close> already stripped: separators,
  captions (read without regard to letter case), event markers, blank lines.
\<close>

definition is_separator :: "string \<Rightarrow> bool" where
  "is_separator t = (t \<noteq> [] \<and> (set t \<subseteq> {CHR ''=''} \<or> set t \<subseteq> {CHR ''-''}))"

definition is_caption :: "string \<Rightarrow> bool" where
  "is_caption t =
     ((\<exists>a b c. lower t = a @ ''sample'' @ b @ ''events'' @ c) \<or>
      (\<exists>b. lower t = ''sample'' @ b @ ''logs'' \<or> lower t = ''sample'' @ b @ ''logs:'') \<or>
      lower t \<in> {''traffic logs'', ''traffic logs:'', ''threat logs'', ''threat logs:'',
                  ''traffic log'', ''traffic log:'', ''threat log'', ''threat log:''})"

definition is_event_marker :: "string \<Rightarrow> bool" where
  "is_event_marker t =
     (\<exists>ds. ds \<noteq> [] \<and> (\<forall>d\<in>set ds. is_digit d) \<and>
           (lower t = ''event '' @ ds \<or> lower t = ''event '' @ ds @ '':''))"

definition is_blank :: "string \<Rightarrow> bool" where
  "is_blank t = (\<forall>c \<in> set t. is_space c)"

definition decorative :: "string \<Rightarrow> bool" where
  "decorative t = (is_separator t \<or> is_caption t \<or> is_event_marker t \<or> is_blank t)"

text \<open>
  The brace groups of the spec's classifier: a flat group starts at a position when the text
  from there is \<open>{\<close>, then characters other than braces, then \<open>}\<close>. Each group has one
  start, so the groups of a text are counted by the suffixes at which one starts.
\<close>

definition group_at :: "string \<Rightarrow> bool" where
  "group_at s = (\<exists>body rest. s = CHR ''{'' # body @ CHR ''}'' # rest \<and>
                    CHR ''{'' \<notin> set body \<and> CHR ''}'' \<notin> set body)"

definition brace_groups :: "string \<Rightarrow> nat" where
  "brace_groups s = length (filter group_at (suffixes s))"

section \<open>Facts about the registry\<close>

lemma str_nat_digit: "n < 10 \<Longrightarrow> str_nat n = [digit_chr n]"
  by (simp add: str_nat.simps)

lemma rstrip_chr_decomp: "\<exists>k. s = rstrip_chr c s @ replicate k c"
proof -
  have "\<exists>k. xs = replicate k c @ dropWhile (\<lambda>x. x = c) xs" for xs :: string
  proof (induction xs)
    case Nil then show ?case by simp
  next
    case (Cons a xs)
    show ?case
    proof (cases "a = c")
      case True
      from Cons obtain k where "xs = replicate k c @ dropWhile (\<lambda>x. x = c) xs" by blast
      then have "a # xs = replicate (Suc k) c @ dropWhile (\<lambda>x. x = c) (a # xs)" using True by simp
      then show ?thesis by blast
    next
      case False
      then have "a # xs = replicate 0 c @ dropWhile (\<lambda>x. x = c) (a # xs)" by simp
      then show ?thesis by blast
    qed
  qed
  then obtain k where "rev s = replicate k c @ dropWhile (\<lambda>x. x = c) (rev s)" by blast
  then have "rev (rev s) = rev (replicate k c @ dropWhile (\<lambda>x. x = c) (rev s))" by simp
  then have "s = rstrip_chr c s @ replicate k c" by (simp add: rstrip_chr_def)
  then show ?thesis by blast
qed

lemma rstrip_chr_last: "rstrip_chr c s = [] \<or> last (rstrip_chr c s) \<noteq> c"
proof (cases "dropWhile (\<lambda>x. x = c) (rev s)")
  case Nil then show ?thesis by (simp add: rstrip_chr_def)
next
  case (Cons a xs)
  then have "a \<noteq> c" using hd_dropWhile[of "\<lambda>x. x = c" "rev s"] by auto
  then show ?thesis using Cons by (simp add: rstrip_chr_def)
qed

lemma find_update_first:
  "(\<And>x. P x \<Longrightarrow> P (f x)) \<Longrightarrow> find P (update_first P f xs) = map_option f (find P xs)"
  by (induction xs) auto

lemma find_append_None: "find P xs = None \<Longrightarrow> find P (xs @ [y]) = (if P y then Some y else None)"
  by (induction xs) (auto split: if_splits)

lemma update_first_id: "(\<And>x. x \<in> set xs \<Longrightarrow> P x \<Longrightarrow> f x = x) \<Longrightarrow> update_first P f xs = xs"
  by (induction xs) auto

lemma update_first_idem: "(\<And>x. P x \<Longrightarrow> P (f x)) \<Longrightarrow> (\<And>x. f (f x) = f x) \<Longrightarrow> update_first P f (update_first P f xs) = update_first P f xs"
  by (induction xs) auto

lemma set_update_first: "y \<in> set (update_first P f xs) \<Longrightarrow> y \<in> set xs \<or> (\<exists>x\<in>set xs. y = f x)"
  by (induction xs) (auto split: if_splits)

lemma map_update_first: "(\<And>x. g (f x) = g x) \<Longrightarrow> map g (update_first P f xs) = map g xs"
  by (induction xs) auto



lemma save_and_reply_file:
  "dest_file (snd (save_and_reply e st items r)) \<in> {items, dest_file st, []}"
  by (simp add: save_and_reply_def split: save_outcome.splits)

lemma upsert_hec_fail_closed:
  assumes "\<not> has_keyring e \<or> set_password_exc e \<noteq> None"
  shows "upsert_hec e st name base token = (Error_response 500 msg_unavailable, st) \<or>
         upsert_hec e st name base token = (Error_response 500 msg_token_failed, st)"
  using assms by (auto simp: upsert_hec_def Let_def split: option.splits)



lemma tokens_kept_refl: "tokens_kept xs xs"
  by (auto simp: tokens_kept_def)

lemma tokens_kept_Nil: "tokens_kept xs []"
  by (simp add: tokens_kept_def)

lemma tokens_kept_update_first:
  assumes "\<And>x. d_token (f x) = d_token x \<or> d_token (f x) = None"
  shows "tokens_kept xs (update_first P f xs)"
proof -
  have "d_token ` set (update_first P f ys) \<subseteq> insert None (d_token ` set ys)" for ys
  proof (induction ys)
    case Nil
    then show ?case by simp
  next
    case (Cons a ys)
    show ?case
    proof (cases "P a")
      case True
      then show ?thesis using assms[of a] by auto
    next
      case False
      then show ?thesis using Cons by auto
    qed
  qed
  then show ?thesis by (simp add: tokens_kept_def)
qed

lemma tokens_kept_snoc: "d_token d = None \<Longrightarrow> tokens_kept xs (xs @ [d])"
  by (auto simp: tokens_kept_def)

lemma save_and_reply_tokens:
  "tokens_kept (dest_file st) items \<Longrightarrow> dest_file st' = dest_file st \<Longrightarrow>
   tokens_kept (dest_file st) (dest_file (snd (save_and_reply e st' items r)))"
  by (cases "save_result e") (simp_all add: save_and_reply_def tokens_kept_refl tokens_kept_Nil)

lemma upsert_hec_no_token:
  "tokens_kept (dest_file st) (dest_file (snd (upsert_hec e st name base token)))"
  by (simp add: upsert_hec_def Let_def tokens_kept_refl save_and_reply_tokens tokens_kept_update_first
        tokens_kept_snoc empty_dest_def split: option.splits)

lemma upsert_syslog_no_token:
  "tokens_kept (dest_file st) (dest_file (snd (upsert_syslog e st name ip port protocol)))"
  by (simp add: upsert_syslog_def Let_def tokens_kept_refl save_and_reply_tokens tokens_kept_update_first
        tokens_kept_snoc empty_dest_def split: option.splits)

lemma create_destination_no_token:
  "tokens_kept (dest_file st) (dest_file (snd (create_destination e st p)))"
  by (simp add: create_destination_def Let_def tokens_kept_refl upsert_hec_no_token upsert_syslog_no_token
        split: option.splits)

text \<open>
  Claim C2. When the keyring is unavailable or \<open>set_password\<close> raises, a create or update
  of an HEC destination fails as a whole: the reply is one of two fixed messages with status
  500 (the exception text is not in them), and the file and the keyring are exactly as before.
  In every outcome, no \<open>token\<close> value enters the destination file.
\<close>

theorem create_destination_fail_closed:
  "(p_type p = Some ''hec'' \<and> p_name p = Some name \<and> p_url p = Some url \<and> p_token p = Some token \<and>
    name \<noteq> [] \<and> url \<noteq> [] \<and> token \<noteq> [] \<and> (\<not> has_keyring e \<or> set_password_exc e \<noteq> None) \<longrightarrow>
      create_destination e st p = (Error_response 500 msg_unavailable, st) \<or>
      create_destination e st p = (Error_response 500 msg_token_failed, st))
   \<and> tokens_kept (dest_file st) (dest_file (snd (create_destination e st p)))"
proof (intro conjI impI)
  assume a: "p_type p = Some ''hec'' \<and> p_name p = Some name \<and> p_url p = Some url \<and> p_token p = Some token \<and>
    name \<noteq> [] \<and> url \<noteq> [] \<and> token \<noteq> [] \<and> (\<not> has_keyring e \<or> set_password_exc e \<noteq> None)"
  then have "create_destination e st p = upsert_hec e st name (hec_base url) token"
    by (simp add: create_destination_def)
  then show "create_destination e st p = (Error_response 500 msg_unavailable, st) \<or>
      create_destination e st p = (Error_response 500 msg_token_failed, st)"
    using upsert_hec_fail_closed[of e st name "hec_base url" token] a by simp
next
  show "tokens_kept (dest_file st) (dest_file (snd (create_destination e st p)))"
    by (rule create_destination_no_token)
qed

lemmas ex_defs = env_ok_def env_no_keyring_def empty_state_def hec_payload_def syslog_payload_def

text \<open>
  Claim C3, at the spec's own scenario: the syslog destination is stored with protocol
  \<open>UDP\<close>, and the reply is the unhandled \<open>UnboundLocalError\<close> of line 196, not the
  stored destination.
\<close>

theorem syslog_upsert_reply_unbound:
  "create_destination env_ok empty_state (syslog_payload ''d1'' ''10.0.0.5'' 514 ''udp'') =
     (Unhandled (UnboundLocalError ''base''),
      \<lparr>dest_file = [\<lparr>d_id = Some ''syslog:1'', d_type = Some ''syslog'', d_name = Some ''d1'', d_url = None,
           d_token = None, d_ip = Some ''10.0.0.5'', d_port = Some 514, d_protocol = Some ''UDP''\<rparr>],
       keyring = (\<lambda>k. None)\<rparr>)"
  by (simp add: ex_defs create_destination_def upsert_syslog_def save_and_reply_def upper_def upper_chr_def
        ascii_lowercase_def ascii_uppercase_def empty_dest_def str_nat_digit digit_chr_def)

lemma syslog_never_created:
  "p_type p = Some ''syslog'' \<Longrightarrow> fst (create_destination e st p) \<noteq> Created i n t u"
  by (simp add: create_destination_def upsert_syslog_def save_and_reply_def Let_def
        split: option.splits save_outcome.splits)

lemma upsert_hec_created:
  assumes "upsert_hec e st name base token = (Created i n ty u, st')"
  shows "n = name \<and> ty = ''hec'' \<and> u = base \<and> keyring st' i = Some token \<and> i \<noteq> [] \<and>
         has_keyring e \<and> set_password_exc e = None \<and> save_result e = Saved \<and>
         (\<exists>d. find (same_name_type name ''hec'') (dest_file st') = Some d \<and> d_url d = Some base \<and>
              d_id d = Some i \<and> d_token d = None)"
proof (cases "find (same_name_type name ''hec'') (dest_file st)")
  case None
  let ?id = "''hec'' @ '':'' @ str_nat (length (dest_file st) + 1)"
  let ?entry = "empty_dest\<lparr>d_id := Some ?id, d_type := Some ''hec'', d_name := Some name, d_url := Some base\<rparr>"
  have "str_nat (length (dest_file st) + 1) \<noteq> []"
    by (subst str_nat.simps) simp
  then have ne: "?id \<noteq> []" by simp
  from assms None have *: "has_keyring e \<and> set_password_exc e = None \<and> save_result e = Saved \<and> i = ?id \<and> n = name \<and> ty = ''hec'' \<and> u = base \<and>
      st' = st\<lparr>keyring := (keyring st)(?id \<mapsto> token), dest_file := dest_file st @ [?entry]\<rparr>"
    by (auto simp: upsert_hec_def Let_def save_and_reply_def split: if_splits option.splits save_outcome.splits)
  have "find (same_name_type name ''hec'') (dest_file st @ [?entry]) = Some ?entry"
    using None by (simp add: find_append_None same_name_type_def empty_dest_def)
  then show ?thesis using * ne by (simp add: empty_dest_def)
next
  case (Some ex)
  let ?f = "\<lambda>d. d\<lparr>d_url := Some base, d_token := None\<rparr>"
  from assms Some have *: "has_keyring e \<and> set_password_exc e = None \<and> save_result e = Saved \<and> i \<noteq> [] \<and> d_id ex = Some i \<and> n = name \<and> ty = ''hec'' \<and> u = base \<and>
      st' = st\<lparr>keyring := (keyring st)(i \<mapsto> token),
               dest_file := update_first (same_name_type name ''hec'') ?f (dest_file st)\<rparr>"
    by (auto simp: upsert_hec_def Let_def save_and_reply_def split: if_splits option.splits save_outcome.splits)
  have "find (same_name_type name ''hec'') (update_first (same_name_type name ''hec'') ?f (dest_file st)) = Some (?f ex)"
    using Some by (subst find_update_first) (simp_all add: same_name_type_def)
  then show ?thesis using * by simp
qed

text \<open>
  Claim C4. When an HEC payload with non-empty name, url and token is accepted, the url in the
  reply and in the stored entry is the input url without its trailing slashes \<open>t\<close>, followed
  by \<open>/services/collector\<close> unless \<open>t\<close> ends in \<open>/event\<close> or \<open>/raw\<close> or contains
  \<open>/services/collector\<close>.
\<close>

theorem create_destination_hec_url:
  assumes "p_type p = Some ''hec''" and "p_name p = Some name" and "p_url p = Some url"
    and "p_token p = Some token" and "name \<noteq> []" and "url \<noteq> []" and "token \<noteq> []"
    and "create_destination e st p = (Created i n ty u, st')"
  shows "\<exists>t k. url = t @ replicate k CHR ''/'' \<and> (t = [] \<or> last t \<noteq> CHR ''/'') \<and>
           u = (if \<not> suffix ''/event'' t \<and> \<not> suffix ''/raw'' t \<and> \<not> sublist ''/services/collector'' t
                then t @ ''/services/collector'' else t) \<and>
           (\<exists>d. find (same_name_type name ''hec'') (dest_file st') = Some d \<and> d_url d = Some u \<and> d_id d = Some i)"
proof -
  from assms have "upsert_hec e st name (hec_base url) token = (Created i n ty u, st')"
    by (simp add: create_destination_def)
  from upsert_hec_created[OF this]
  have u: "u = hec_base url"
    and d: "\<exists>d. find (same_name_type name ''hec'') (dest_file st') = Some d \<and> d_url d = Some u \<and> d_id d = Some i"
    by auto
  obtain k where k: "url = rstrip_chr CHR ''/'' url @ replicate k CHR ''/''"
    using rstrip_chr_decomp by blast
  have l: "rstrip_chr CHR ''/'' url = [] \<or> last (rstrip_chr CHR ''/'' url) \<noteq> CHR ''/''"
    by (rule rstrip_chr_last)
  have "u = (if \<not> suffix ''/event'' (rstrip_chr CHR ''/'' url) \<and> \<not> suffix ''/raw'' (rstrip_chr CHR ''/'' url)
                 \<and> \<not> sublist ''/services/collector'' (rstrip_chr CHR ''/'' url)
             then rstrip_chr CHR ''/'' url @ ''/services/collector'' else rstrip_chr CHR ''/'' url)"
    unfolding u by (simp add: hec_base_def Let_def endswith_def py_in_def)
  with k l d show ?thesis by blast
qed

lemma update_first_fixed: "find P xs = Some d \<Longrightarrow> f d = d \<Longrightarrow> update_first P f xs = xs"
  by (induction xs) (auto split: if_splits)

lemma upsert_hec_idem:
  assumes "upsert_hec e st name base token = (Created i n ty u, st1)"
  shows "upsert_hec e st1 name base token = (Created i n ty u, st1)"
proof -
  let ?P = "same_name_type name ''hec''"
  let ?f = "\<lambda>d. d\<lparr>d_url := Some base, d_token := None\<rparr>"
  from upsert_hec_created[OF assms] obtain d where
    d: "n = name" "ty = ''hec''" "u = base" "keyring st1 i = Some token" "i \<noteq> []"
       "has_keyring e" "set_password_exc e = None" "save_result e = Saved"
       "find ?P (dest_file st1) = Some d" "d_url d = Some base" "d_id d = Some i" "d_token d = None"
    by blast
  have "?f d = d" using d by simp
  then have upd: "update_first ?P ?f (dest_file st1) = dest_file st1"
    using d(9) by (rule update_first_fixed[rotated])
  have kr: "(keyring st1)(i \<mapsto> token) = keyring st1"
    using d(4) by (rule map_upd_triv)
  show ?thesis
    using d by (simp add: upsert_hec_def save_and_reply_def upd kr)
qed

lemma upsert_syslog_saved:
  assumes "upsert_syslog e st name ip port proto = (Unhandled x, st')"
  shows "save_result e = Saved \<and> x = UnboundLocalError ''base'' \<and> keyring st' = keyring st \<and>
         (\<exists>d. find (same_name_type name ''syslog'') (dest_file st') = Some d \<and>
              d_ip d = Some ip \<and> d_port d = Some port \<and> d_protocol d = Some proto)"
proof (cases "find (same_name_type name ''syslog'') (dest_file st)")
  case None
  let ?id = "''syslog'' @ '':'' @ str_nat (length (dest_file st) + 1)"
  let ?entry = "empty_dest\<lparr>d_id := Some ?id, d_type := Some ''syslog'', d_name := Some name,
      d_ip := Some ip, d_port := Some port, d_protocol := Some proto\<rparr>"
  from assms None have *: "save_result e = Saved \<and> x = UnboundLocalError ''base'' \<and>
      st' = st\<lparr>dest_file := dest_file st @ [?entry]\<rparr>"
    by (auto simp: upsert_syslog_def Let_def save_and_reply_def split: save_outcome.splits)
  have "find (same_name_type name ''syslog'') (dest_file st @ [?entry]) = Some ?entry"
    using None by (simp add: find_append_None same_name_type_def empty_dest_def)
  then show ?thesis using * by (simp add: empty_dest_def)
next
  case (Some ex)
  let ?f = "\<lambda>d. d\<lparr>d_ip := Some ip, d_port := Some port, d_protocol := Some proto\<rparr>"
  from assms Some have *: "save_result e = Saved \<and> x = UnboundLocalError ''base'' \<and>
      st' = st\<lparr>dest_file := update_first (same_name_type name ''syslog'') ?f (dest_file st)\<rparr>"
    by (auto simp: upsert_syslog_def Let_def save_and_reply_def split: save_outcome.splits)
  have "find (same_name_type name ''syslog'') (update_first (same_name_type name ''syslog'') ?f (dest_file st)) = Some (?f ex)"
    using Some by (subst find_update_first) (simp_all add: same_name_type_def)
  then show ?thesis using * by simp
qed

lemma upsert_syslog_idem:
  assumes "upsert_syslog e st name ip port proto = (Unhandled x, st1)"
  shows "upsert_syslog e st1 name ip port proto = (Unhandled x, st1)"
proof -
  let ?P = "same_name_type name ''syslog''"
  let ?f = "\<lambda>d. d\<lparr>d_ip := Some ip, d_port := Some port, d_protocol := Some proto\<rparr>"
  from upsert_syslog_saved[OF assms] obtain d where
    d: "save_result e = Saved" "x = UnboundLocalError ''base''"
       "find ?P (dest_file st1) = Some d" "d_ip d = Some ip" "d_port d = Some port" "d_protocol d = Some proto"
    by blast
  have "?f d = d" using d by simp
  then have upd: "update_first ?P ?f (dest_file st1) = dest_file st1"
    using d(3) by (rule update_first_fixed[rotated])
  show ?thesis
    using d by (simp add: upsert_syslog_def save_and_reply_def upd)
qed

lemma create_destination_accepted:
  assumes "create_destination e st p = (r, st1)" and "\<forall>c m. r \<noteq> Error_response c m"
  shows "(\<exists>name url token i. p_type p = Some ''hec'' \<and> p_name p = Some name \<and> p_url p = Some url \<and>
            p_token p = Some token \<and> name \<noteq> [] \<and> url \<noteq> [] \<and> token \<noteq> [] \<and>
            upsert_hec e st name (hec_base url) token = (r, st1) \<and> r = Created i name ''hec'' (hec_base url)) \<or>
         (\<exists>name ip port x. p_type p = Some ''syslog'' \<and> p_name p = Some name \<and> p_ip p = Some ip \<and>
            p_port p = Some port \<and> name \<noteq> [] \<and> ip \<noteq> [] \<and> port \<noteq> 0 \<and>
            upper (case p_protocol p of None \<Rightarrow> [] | Some s \<Rightarrow> s) \<in> {''UDP'', ''TCP''} \<and>
            upsert_syslog e st name ip port (upper (case p_protocol p of None \<Rightarrow> [] | Some s \<Rightarrow> s)) = (r, st1) \<and>
            r = Unhandled x)"
proof (cases "p_type p = Some ''hec''")
  case True
  have ne: "r \<noteq> Error_response 400 msg_hec_required" using assms(2) by simp
  from True assms(1) ne obtain name url token where
    v: "p_name p = Some name" "p_url p = Some url" "p_token p = Some token"
       "name \<noteq> []" "url \<noteq> []" "token \<noteq> []"
    by (cases "p_name p"; cases "p_url p"; cases "p_token p")
       (auto simp: create_destination_def split: if_splits)
  with True assms(1) have up: "upsert_hec e st name (hec_base url) token = (r, st1)"
    by (simp add: create_destination_def)
  have "upsert_hec e st name (hec_base url) token \<in>
          {(Error_response 500 msg_unavailable, st), (Error_response 500 msg_token_failed, st)} \<or>
        (\<exists>i s items. upsert_hec e st name (hec_base url) token =
            save_and_reply e s items (Created i name ''hec'' (hec_base url)))"
    by (simp add: upsert_hec_def Let_def split: option.splits) blast
  moreover have "\<And>s items i. save_and_reply e s items (Created i name ''hec'' (hec_base url)) = (r, st1)
        \<Longrightarrow> r = Created i name ''hec'' (hec_base url)"
    using assms(2) by (cases "save_result e") (auto simp: save_and_reply_def)
  ultimately have "\<exists>i. r = Created i name ''hec'' (hec_base url)"
  proof (elim disjE exE)
    assume "upsert_hec e st name (hec_base url) token \<in>
          {(Error_response 500 msg_unavailable, st), (Error_response 500 msg_token_failed, st)}"
    with up assms(2) show ?thesis by auto
  next
    fix i s items
    assume h: "\<And>s items i. save_and_reply e s items (Created i name ''hec'' (hec_base url)) = (r, st1)
        \<Longrightarrow> r = Created i name ''hec'' (hec_base url)"
      and eq: "upsert_hec e st name (hec_base url) token = save_and_reply e s items (Created i name ''hec'' (hec_base url))"
    from up eq have "save_and_reply e s items (Created i name ''hec'' (hec_base url)) = (r, st1)" by simp
    from h[OF this] show ?thesis by blast
  qed
  with True v up show ?thesis by blast
next
  case False
  have ne: "r \<noteq> Error_response 400 msg_syslog_required" "r \<noteq> Error_response 400 ''Unsupported destination type''"
    using assms(2) by simp_all
  from False assms(1) ne have sy: "p_type p = Some ''syslog''"
    by (auto simp: create_destination_def split: if_splits)
  let ?proto = "upper (case p_protocol p of None \<Rightarrow> [] | Some s \<Rightarrow> s)"
  from sy assms(1) ne(1) obtain name ip port where
    v: "p_name p = Some name" "p_ip p = Some ip" "p_port p = Some port"
       "name \<noteq> []" "ip \<noteq> []" "port \<noteq> 0" "?proto \<in> {''UDP'', ''TCP''}"
    by (cases "p_name p"; cases "p_ip p"; cases "p_port p")
       (auto simp: create_destination_def Let_def split: if_splits)
  from sy v assms(1) have up: "upsert_syslog e st name ip port ?proto = (r, st1)"
    by (auto simp: create_destination_def Let_def)
  have "\<exists>s items. upsert_syslog e st name ip port ?proto =
            save_and_reply e s items (Unhandled (UnboundLocalError ''base''))"
    by (simp add: upsert_syslog_def Let_def split: option.splits) blast
  moreover have "\<And>s items. save_and_reply e s items (Unhandled (UnboundLocalError ''base'')) = (r, st1)
        \<Longrightarrow> r = Unhandled (UnboundLocalError ''base'')"
    using assms(2) by (cases "save_result e") (auto simp: save_and_reply_def)
  ultimately have "\<exists>x. r = Unhandled x"
    using up by auto
  with sy v up show ?thesis by blast
qed

lemma create_destination_idem:
  assumes "create_destination e st p = (r, st1)" and "\<forall>c m. r \<noteq> Error_response c m"
  shows "create_destination e st1 p = (r, st1)"
  using create_destination_accepted[OF assms]
proof (elim disjE exE conjE)
  fix name url token i
  assume a: "p_type p = Some ''hec''" "p_name p = Some name" "p_url p = Some url" "p_token p = Some token"
    "name \<noteq> []" "url \<noteq> []" "token \<noteq> []"
    "upsert_hec e st name (hec_base url) token = (r, st1)" "r = Created i name ''hec'' (hec_base url)"
  then have "upsert_hec e st1 name (hec_base url) token = (r, st1)"
    using upsert_hec_idem by simp
  with a show ?thesis by (simp add: create_destination_def)
next
  fix name ip port x
  let ?proto = "upper (case p_protocol p of None \<Rightarrow> [] | Some s \<Rightarrow> s)"
  assume a: "p_type p = Some ''syslog''" "p_name p = Some name" "p_ip p = Some ip" "p_port p = Some port"
    "name \<noteq> []" "ip \<noteq> []" "port \<noteq> 0" "?proto \<in> {''UDP'', ''TCP''}"
    "upsert_syslog e st name ip port ?proto = (r, st1)" "r = Unhandled x"
  then have "upsert_syslog e st1 name ip port ?proto = (r, st1)"
    using upsert_syslog_idem by simp
  with a show ?thesis by (simp add: create_destination_def Let_def)
qed

lemma count_unique:
  "distinct (map k xs) \<Longrightarrow> length (filter (\<lambda>x. k x = a) xs) \<le> 1"
proof (induction xs)
  case Nil
  then show ?case by simp
next
  case (Cons x xs)
  show ?case
  proof (cases "k x = a")
    case True
    from Cons.prems have "k x \<notin> k ` set xs" by simp
    with True have "\<forall>y\<in>set xs. k y \<noteq> a" by (auto simp: image_iff)
    then have "filter (\<lambda>x. k x = a) xs = []" by (simp add: filter_empty_conv)
    with True show ?thesis by simp
  next
    case False
    with Cons show ?thesis by simp
  qed
qed

lemma find_Some_filter: "find P xs = Some d \<Longrightarrow> 1 \<le> length (filter P xs)"
  by (induction xs) (auto split: if_splits)

lemma same_name_type_key: "same_name_type name ty = (\<lambda>d. (d_name d, d_type d) = (Some name, Some ty))"
  by (auto simp: same_name_type_def fun_eq_iff)

lemma name_type_unique_count:
  "name_type_unique items \<Longrightarrow> length (filter (same_name_type name ty) items) \<le> 1"
  unfolding name_type_unique_def same_name_type_key by (rule count_unique)

lemma name_type_unique_update:
  assumes "\<And>x. d_name (f x) = d_name x \<and> d_type (f x) = d_type x" and "name_type_unique xs"
  shows "name_type_unique (update_first P f xs)"
proof -
  have "map (\<lambda>d. (d_name d, d_type d)) (update_first P f xs) = map (\<lambda>d. (d_name d, d_type d)) xs"
    by (rule map_update_first) (simp add: assms(1))
  then show ?thesis using assms(2) by (simp add: name_type_unique_def)
qed

lemma name_type_unique_snoc:
  assumes "find (same_name_type name ty) xs = None" and "name_type_unique xs"
    and "d_name d = Some name" and "d_type d = Some ty"
  shows "name_type_unique (xs @ [d])"
proof -
  have "\<forall>x\<in>set xs. \<not> same_name_type name ty x"
    using assms(1) by (simp add: find_None_iff)
  then have "(Some name, Some ty) \<notin> (\<lambda>d. (d_name d, d_type d)) ` set xs"
    by (auto simp: same_name_type_def)
  then show ?thesis using assms by (simp add: name_type_unique_def)
qed

lemma save_and_reply_unique:
  "name_type_unique items \<Longrightarrow> name_type_unique (dest_file st) \<Longrightarrow>
   name_type_unique (dest_file (snd (save_and_reply e st items r)))"
  by (cases "save_result e") (simp_all add: save_and_reply_def name_type_unique_def)

lemma upsert_hec_unique:
  assumes "name_type_unique (dest_file st)"
  shows "name_type_unique (dest_file (snd (upsert_hec e st name base token)))"
proof (cases "find (same_name_type name ''hec'') (dest_file st)")
  case None
  then show ?thesis using assms
    by (simp add: upsert_hec_def Let_def save_and_reply_unique name_type_unique_snoc empty_dest_def
        split: option.splits)
next
  case (Some a)
  then show ?thesis using assms
    by (simp add: upsert_hec_def Let_def save_and_reply_unique name_type_unique_update
        split: option.splits)
qed

lemma upsert_syslog_unique:
  assumes "name_type_unique (dest_file st)"
  shows "name_type_unique (dest_file (snd (upsert_syslog e st name ip port proto)))"
proof (cases "find (same_name_type name ''syslog'') (dest_file st)")
  case None
  then show ?thesis using assms
    by (simp add: upsert_syslog_def Let_def save_and_reply_unique name_type_unique_snoc empty_dest_def)
next
  case (Some a)
  then show ?thesis using assms
    by (simp add: upsert_syslog_def Let_def save_and_reply_unique name_type_unique_update)
qed

lemma create_destination_unique:
  "name_type_unique (dest_file st) \<Longrightarrow> name_type_unique (dest_file (snd (create_destination e st p)))"
  by (simp add: create_destination_def Let_def upsert_hec_unique upsert_syslog_unique split: option.splits)

lemma delete_destination_unique:
  "name_type_unique (dest_file st) \<Longrightarrow> name_type_unique (dest_file (snd (delete_destination e st i)))"
  by (cases "save_result e") (simp_all add: delete_destination_def Let_def name_type_unique_def distinct_map_filter)

lemma reachable_name_type_unique: "reachable st \<Longrightarrow> name_type_unique (dest_file st)"
  by (induction rule: reachable.induct)
     (simp_all add: name_type_unique_def[of "[]"] create_destination_unique delete_destination_unique)

text \<open>
  Claim C5. A submission the registry accepts, submitted again, gives the same reply and leaves
  the whole state (file and keyring) as the first submission left it; and when the file held at
  most one entry per (name, type) before, as every file the routes build from an empty one does
  (\<open>reachable_name_type_unique\<close>), it holds exactly one entry for the payload's pair after.
\<close>

theorem create_destination_idempotent:
  assumes "create_destination e st p = (r, st1)" and "\<forall>c m. r \<noteq> Error_response c m"
    and "p_name p = Some name" and "p_type p = Some ty" and "name_type_unique (dest_file st)"
  shows "create_destination e st1 p = (r, st1) \<and>
         length (filter (same_name_type name ty) (dest_file st1)) = 1"
proof -
  have idem: "create_destination e st1 p = (r, st1)"
    using assms(1,2) by (rule create_destination_idem)
  have "name_type_unique (dest_file (snd (create_destination e st p)))"
    using assms(5) by (rule create_destination_unique)
  then have le: "length (filter (same_name_type name ty) (dest_file st1)) \<le> 1"
    using assms(1) name_type_unique_count[of "dest_file st1" name ty] by simp
  have "\<exists>d. find (same_name_type name ty) (dest_file st1) = Some d"
    using create_destination_accepted[OF assms(1,2)]
  proof (elim disjE exE conjE)
    fix name' url token i
    assume a: "p_type p = Some ''hec''" "p_name p = Some name'"
      "upsert_hec e st name' (hec_base url) token = (r, st1)" "r = Created i name' ''hec'' (hec_base url)"
    then have "upsert_hec e st name (hec_base url) token = (Created i name ''hec'' (hec_base url), st1)"
      using assms(3) by simp
    from upsert_hec_created[OF this] have
      "\<exists>d. find (same_name_type name ''hec'') (dest_file st1) = Some d" by blast
    with a(1) assms(4) show ?thesis by simp
  next
    fix name' ip port x
    let ?proto = "upper (case p_protocol p of None \<Rightarrow> [] | Some s \<Rightarrow> s)"
    assume a: "p_type p = Some ''syslog''" "p_name p = Some name'"
      "upsert_syslog e st name' ip port ?proto = (r, st1)" "r = Unhandled x"
    then have "upsert_syslog e st name ip port ?proto = (Unhandled x, st1)"
      using assms(3) by simp
    from upsert_syslog_saved[OF this] have
      "\<exists>d. find (same_name_type name ''syslog'') (dest_file st1) = Some d" by blast
    with a(1) assms(4) show ?thesis by simp
  qed
  then have "1 \<le> length (filter (same_name_type name ty) (dest_file st1))"
    by (auto dest: find_Some_filter)
  with le idem show ?thesis by simp
qed

lemma hec_base_example: "hec_base ''https://a.example'' = ''https://a.example/services/collector''"
  by (simp add: hec_base_def rstrip_chr_def endswith_def py_in_def suffix_to_prefix sublist_code)

lemma hec_base_example_b: "hec_base ''https://b.example'' = ''https://b.example/services/collector''"
  by (simp add: hec_base_def rstrip_chr_def endswith_def py_in_def suffix_to_prefix sublist_code)

lemma hec_base_example_c: "hec_base ''https://c.example'' = ''https://c.example/services/collector''"
  by (simp add: hec_base_def rstrip_chr_def endswith_def py_in_def suffix_to_prefix sublist_code)

text \<open>
  Claim C10. Ids are not unique: create A, create B, delete A, create C leaves two entries with
  the id \<open>hec:2\<close>, since a new id is the type followed by the current list length plus one;
  the keyring entry of \<open>hec:2\<close> then holds C's token.
\<close>

theorem destination_ids_not_unique:
  "(let s1 = snd (create_destination env_ok empty_state (hec_payload ''A'' ''https://a.example'' ''ta''));
        s2 = snd (create_destination env_ok s1 (hec_payload ''B'' ''https://b.example'' ''tb''));
        s3 = snd (delete_destination env_ok s2 ''hec:1'');
        s4 = snd (create_destination env_ok s3 (hec_payload ''C'' ''https://c.example'' ''tc''))
    in map d_id (dest_file s4) = [Some ''hec:2'', Some ''hec:2''] \<and>
       map d_name (dest_file s4) = [Some ''B'', Some ''C''] \<and>
       keyring s4 ''hec:2'' = Some ''tc'')"
  by (simp add: ex_defs create_destination_def upsert_hec_def save_and_reply_def delete_destination_def
        hec_base_example hec_base_example_b hec_base_example_c empty_dest_def str_nat_digit digit_chr_def
        same_name_type_def Let_def)

lemma hec_base_scenario: "hec_base ''https://example.com'' = ''https://example.com/services/collector''"
  by (simp add: hec_base_def rstrip_chr_def endswith_def py_in_def suffix_to_prefix sublist_code)

lemma create_destination_scenario:
  "create_destination env_ok empty_state (hec_payload ''prod'' ''https://example.com'' ''abc'') =
     (Created ''hec:1'' ''prod'' ''hec'' ''https://example.com/services/collector'',
      \<lparr>dest_file = [\<lparr>d_id = Some ''hec:1'', d_type = Some ''hec'', d_name = Some ''prod'',
           d_url = Some ''https://example.com/services/collector'', d_token = None, d_ip = None,
           d_port = None, d_protocol = None\<rparr>],
       keyring = (\<lambda>k. None)(''hec:1'' \<mapsto> ''abc'')\<rparr>)"
  by (simp add: ex_defs create_destination_def upsert_hec_def save_and_reply_def hec_base_scenario
        empty_dest_def str_nat_digit digit_chr_def Let_def)

theorem create_destination_fail_closed_witness:
  "(p_type (hec_payload ''prod'' ''https://example.com'' ''abc'') = Some ''hec'' \<and>
    \<not> has_keyring env_no_keyring) \<and>
   (create_destination env_no_keyring empty_state (hec_payload ''prod'' ''https://example.com'' ''abc'') =
      (Error_response 500 msg_unavailable, empty_state) \<or>
    create_destination env_no_keyring empty_state (hec_payload ''prod'' ''https://example.com'' ''abc'') =
      (Error_response 500 msg_token_failed, empty_state)) \<and>
   tokens_kept (dest_file empty_state)
     (dest_file (snd (create_destination env_no_keyring empty_state
        (hec_payload ''prod'' ''https://example.com'' ''abc''))))"
  using create_destination_fail_closed [of "hec_payload ''prod'' ''https://example.com'' ''abc''"
      "''prod''" "''https://example.com''" "''abc''" env_no_keyring empty_state]
  by (simp add: hec_payload_def env_no_keyring_def)

theorem syslog_upsert_reply_unbound_witness:
  "fst (create_destination env_ok empty_state (syslog_payload ''d1'' ''10.0.0.5'' 514 ''udp'')) =
     Unhandled (UnboundLocalError ''base'')"
  using syslog_upsert_reply_unbound by simp

theorem create_destination_hec_url_witness:
  "create_destination env_ok empty_state (hec_payload ''prod'' ''https://example.com'' ''abc'') =
     (Created ''hec:1'' ''prod'' ''hec'' ''https://example.com/services/collector'',
      snd (create_destination env_ok empty_state (hec_payload ''prod'' ''https://example.com'' ''abc''))) \<and>
   (\<exists>t k. ''https://example.com'' = t @ replicate k CHR ''/'' \<and> (t = [] \<or> last t \<noteq> CHR ''/'') \<and>
      ''https://example.com/services/collector'' =
        (if \<not> suffix ''/event'' t \<and> \<not> suffix ''/raw'' t \<and> \<not> sublist ''/services/collector'' t
         then t @ ''/services/collector'' else t) \<and>
      (\<exists>d. find (same_name_type ''prod'' ''hec'')
             (dest_file (snd (create_destination env_ok empty_state
                (hec_payload ''prod'' ''https://example.com'' ''abc'')))) = Some d \<and>
           d_url d = Some ''https://example.com/services/collector'' \<and> d_id d = Some ''hec:1''))"
proof -
  let ?p = "hec_payload ''prod'' ''https://example.com'' ''abc''"
  have c: "create_destination env_ok empty_state ?p =
     (Created ''hec:1'' ''prod'' ''hec'' ''https://example.com/services/collector'',
      snd (create_destination env_ok empty_state ?p))"
    by (simp add: create_destination_scenario)
  have "p_type ?p = Some ''hec''" "p_name ?p = Some ''prod''" "p_url ?p = Some ''https://example.com''"
    "p_token ?p = Some ''abc''" "''prod'' \<noteq> []" "''https://example.com'' \<noteq> []" "''abc'' \<noteq> []"
    by (simp_all add: hec_payload_def)
  from create_destination_hec_url [OF this c] c show ?thesis by blast
qed

theorem create_destination_idempotent_witness:
  "create_destination env_ok empty_state (hec_payload ''prod'' ''https://example.com'' ''abc'') =
     (Created ''hec:1'' ''prod'' ''hec'' ''https://example.com/services/collector'',
      snd (create_destination env_ok empty_state (hec_payload ''prod'' ''https://example.com'' ''abc''))) \<and>
   name_type_unique (dest_file empty_state) \<and>
   create_destination env_ok
      (snd (create_destination env_ok empty_state (hec_payload ''prod'' ''https://example.com'' ''abc'')))
      (hec_payload ''prod'' ''https://example.com'' ''abc'') =
     (Created ''hec:1'' ''prod'' ''hec'' ''https://example.com/services/collector'',
      snd (create_destination env_ok empty_state (hec_payload ''prod'' ''https://example.com'' ''abc''))) \<and>
   length (filter (same_name_type ''prod'' ''hec'')
      (dest_file (snd (create_destination env_ok empty_state
         (hec_payload ''prod'' ''https://example.com'' ''abc''))))) = 1"
proof -
  let ?p = "hec_payload ''prod'' ''https://example.com'' ''abc''"
  let ?r = "Created ''hec:1'' ''prod'' ''hec'' ''https://example.com/services/collector''"
  have c: "create_destination env_ok empty_state ?p = (?r, snd (create_destination env_ok empty_state ?p))"
    by (simp add: create_destination_scenario)
  have r: "\<forall>c m. ?r \<noteq> Error_response c m" by simp
  have p: "p_name ?p = Some ''prod''" "p_type ?p = Some ''hec''" by (simp_all add: hec_payload_def)
  have u: "name_type_unique (dest_file empty_state)" by (simp add: empty_state_def name_type_unique_def)
  from create_destination_idempotent [OF c r p u] c u show ?thesis by simp
qed

theorem destination_ids_not_unique_witness:
  "\<not> distinct (map d_id (dest_file
     (snd (create_destination env_ok
        (snd (delete_destination env_ok
           (snd (create_destination env_ok
              (snd (create_destination env_ok empty_state (hec_payload ''A'' ''https://a.example'' ''ta'')))
              (hec_payload ''B'' ''https://b.example'' ''tb'')))
           ''hec:1''))
        (hec_payload ''C'' ''https://c.example'' ''tc'')))))"
  using destination_ids_not_unique by (simp add: Let_def)

text \<open>
  Claim C9. A syslog run whose destination resolves to TCP and whose connect raises: the socket is
  opened, the connect is tried, one ERROR line and the closing INFO line are yielded, and the
  socket is closed. Nothing is sent, no LOG line is yielded and no child process is started.
\<close>

theorem tcp_connect_failure_aborts:
  assumes "g_destination rq = ''syslog''" and "script_exists w"
    and "resolve_syslog (dest_file st) rq = Inr (Some ip, Some port, ''TCP'')"
    and "ip \<noteq> []" and "port \<noteq> 0" and "connect_exc w = Some e"
  shows "\<exists>tr. generate_logs w st rq = Stream tr \<and>
           tr = [Socket_open Tcp, Connect ip port,
                 Yield (''ERROR: Could not connect to TCP syslog server at '' @ ip @ '':'' @ str_int port
                        @ ''. Details: '' @ e @ [nl]),
                 Yield (''INFO: Log generation complete.'' @ [nl]), Socket_close] \<and>
           (\<forall>y \<in> set (yields tr). \<not> prefix ''LOG:'' y) \<and>
           (\<forall>a \<in> set tr. (\<forall>s. a \<noteq> Sendall s) \<and> (\<forall>c n. a \<noteq> Popen_generator c n)) \<and>
           last tr = Socket_close"
  using assms
  by (simp add: generate_logs_def stream_syslog_def truthy_def truthy_int_def finally_block_def yields_def Let_def)

lemma C9_resolve: "resolve_syslog [] tcp_request = Inr (Some ''10.0.0.5'', Some 514, ''TCP'')"
  by (simp add: resolve_syslog_def tcp_request_def truthy_def upper_def upper_chr_def ascii_lowercase_def ascii_uppercase_def)

lemma scenario_lines_verbatim:
  assumes "run_scenario w st rq = Stream tr" and "script_exists w" and "popen_exc w = None"
  shows "set (lines_read w) \<subseteq> set (yields tr)"
proof -
  from assms(1) have "\<exists>i. tr = stream_scenario w i"
    by (auto simp: run_scenario_def Let_def split: if_splits option.splits)
  then obtain i where "tr = stream_scenario w i" by blast
  then show ?thesis using assms(2,3)
    by (auto simp: stream_scenario_def yields_def Let_def)
qed

lemma normalize_hec_url_scenario:
  "normalize_hec_url ''https://example.com/services/collector'' = ''https://example.com/services/collector''"
  by (simp add: normalize_hec_url_def rstrip_chr_def endswith_def py_in_def suffix_to_prefix sublist_code)

lemma sanitize_placeholder_example:
  "sanitize ''hec'' ''https://example.com/services/collector'' ''https://example.com/services/collector''
     (''sent to https://example.com/services/collector'' @ [nl]) = ''sent to <hec_url>'' @ [nl]"
  by (simp add: sanitize_def py_replace_def nl_def)

text \<open>
  Claim C1, at two inputs. \<open>run_scenario\<close> yields a child line that holds the token and the
  destination URL exactly as the child printed it: that route has no sanitizer. In
  \<open>generate_logs\<close> the sanitizer runs, and with the token \<open>hec\<close> the placeholder it writes
  for the URL holds the token.
\<close>

theorem delivery_output_leaks_secret:
  "run_scenario (world_echo [''POST https://example.com/services/collector Authorization: Bearer abc'' @ [nl]])
      state_prod scenario_request_prod =
   Stream [Yield (''INFO: Starting scenario execution...'' @ [nl]),
           Yield (''INFO: Executing quick_scenario.py...'' @ [nl]),
           Popen_scenario ''quick_scenario.py'',
           Yield (''POST https://example.com/services/collector Authorization: Bearer abc'' @ [nl]),
           Wait,
           Yield (''INFO: Scenario execution complete'' @ [nl])] \<and>
   generate_logs (world_echo [''sent to https://example.com/services/collector'' @ [nl]])
      state_token_hec hec_request =
   Stream [Yield (''INFO: Starting HEC send...'' @ [nl]),
           Popen_hec_sender ''okta'' 1,
           Yield (''sent to <hec_url>'' @ [nl]),
           Wait,
           Yield (''INFO: Log generation complete.'' @ [nl])] \<and>
   sublist ''hec'' (''sent to <hec_url>'' @ [nl])"
proof (intro conjI)
  show "run_scenario (world_echo [''POST https://example.com/services/collector Authorization: Bearer abc'' @ [nl]])
      state_prod scenario_request_prod =
   Stream [Yield (''INFO: Starting scenario execution...'' @ [nl]),
           Yield (''INFO: Executing quick_scenario.py...'' @ [nl]),
           Popen_scenario ''quick_scenario.py'',
           Yield (''POST https://example.com/services/collector Authorization: Bearer abc'' @ [nl]),
           Wait,
           Yield (''INFO: Scenario execution complete'' @ [nl])]"
    by (simp add: run_scenario_def stream_scenario_def world_echo_def state_prod_def scenario_request_prod_def
        truthy_def get_password_def lines_read_def id_to_file_def nl_def Let_def)
  show "generate_logs (world_echo [''sent to https://example.com/services/collector'' @ [nl]])
      state_token_hec hec_request =
   Stream [Yield (''INFO: Starting HEC send...'' @ [nl]),
           Popen_hec_sender ''okta'' 1,
           Yield (''sent to <hec_url>'' @ [nl]),
           Wait,
           Yield (''INFO: Log generation complete.'' @ [nl])]"
    by (simp add: generate_logs_def stream_hec_def choose_hec_def world_echo_def state_token_hec_def
        state_prod_def hec_request_def truthy_def get_password_def lines_read_def finally_block_def
        normalize_hec_url_scenario Let_def)
       (simp add: nl_def sanitize_def py_replace_def)
  show "sublist ''hec'' (''sent to <hec_url>'' @ [nl])"
    by (simp add: sublist_code nl_def)
qed

theorem tcp_connect_failure_aborts_witness:
  "generate_logs world_refused empty_state tcp_request =
     Stream [Socket_open Tcp, Connect ''10.0.0.5'' 514,
             Yield (''ERROR: Could not connect to TCP syslog server at 10.0.0.5:514. Details: [Errno 111] Connection refused''
                    @ [nl]),
             Yield (''INFO: Log generation complete.'' @ [nl]), Socket_close]"
proof -
  have r: "resolve_syslog (dest_file empty_state) tcp_request = Inr (Some ''10.0.0.5'', Some 514, ''TCP'')"
    by (simp add: C9_resolve empty_state_def)
  have s: "str_int 514 = ''514''"
    by (simp add: str_int_def str_nat.simps digit_chr_def)
  from tcp_connect_failure_aborts [of tcp_request world_refused empty_state "''10.0.0.5''" 514
      "''[Errno 111] Connection refused''", OF _ _ r]
  show ?thesis by (simp add: tcp_request_def world_refused_def s)
qed

theorem delivery_output_leaks_secret_witness:
  "sublist ''abc'' (''POST https://example.com/services/collector Authorization: Bearer abc'' @ [nl]) \<and>
   (''POST https://example.com/services/collector Authorization: Bearer abc'' @ [nl])
     \<in> set (yields (case run_scenario
          (world_echo [''POST https://example.com/services/collector Authorization: Bearer abc'' @ [nl]])
          state_prod scenario_request_prod of Stream tr \<Rightarrow> tr | Json_error c m \<Rightarrow> []))"
  using delivery_output_leaks_secret by (simp add: yields_def sublist_code nl_def)

section \<open>Facts about the matcher\<close>

lemma lastp_Nil: "lastp p [] = p"
  by (simp add: lastp_def)

lemma lastp_append: "lastp p (u @ v) = lastp (lastp p u) v"
  by (simp add: lastp_def)

lemma lastp_single: "lastp p [c] = Some c"
  by (simp add: lastp_def)

declare rx_run.simps(6) [simp del]

lemma rx_run_Star_set:
  "set (rx_run f (Star r) (p, s)) =
     insert (p, s) (\<Union>y \<in> {y \<in> set (rx_run f r (p, s)). length (snd y) < length s}. set (rx_run f (Star r) y))"
  by (subst rx_run.simps(6)) auto

lemma rx_run_sound:
  "x \<in> set (rx_run f r st) \<Longrightarrow>
   \<exists>w. snd st = w @ snd x \<and> sem f r (fst st) w (snd x) \<and> fst x = lastp (fst st) w"
proof (induction f r st arbitrary: x rule: rx_run.induct)
  case (1 f a p s)
  then show ?case by (cases s) (auto simp: lastp_def split: if_splits)
next
  case (2 f p s)
  then show ?case by (auto simp: lastp_def split: if_splits)
next
  case (3 f p s)
  then show ?case by (auto simp: lastp_def split: if_splits)
next
  case (4 f r1 r2 p s)
  from 4(3) obtain y where y: "y \<in> set (rx_run f r1 (p, s))" and x: "x \<in> set (rx_run f r2 y)"
    by auto
  from 4(1)[OF y] obtain u where u: "s = u @ snd y" "sem f r1 p u (snd y)" "fst y = lastp p u"
    by auto
  from 4(2)[OF y x] obtain v where v: "snd y = v @ snd x" "sem f r2 (fst y) v (snd x)" "fst x = lastp (fst y) v"
    by auto
  have "s = (u @ v) @ snd x" using u v by simp
  moreover have "sem f (Seq r1 r2) p (u @ v) (snd x)" using u v by auto
  moreover have "fst x = lastp p (u @ v)" using u v by (simp add: lastp_append)
  ultimately show ?case by (intro exI[of _ "u @ v"]) simp
next
  case (5 f r p s)
  from 5(2) have "x \<in> set (rx_run f r (p, s)) \<or> x = (p, s)" by auto
  then show ?case
  proof
    assume "x \<in> set (rx_run f r (p, s))"
    from 5(1)[OF this] show ?thesis by auto
  next
    assume "x = (p, s)"
    then show ?thesis by (simp add: lastp_def)
  qed
next
  case (6 f r p s)
  from 6(3) have "x = (p, s) \<or> (\<exists>y \<in> set (rx_run f r (p, s)). length (snd y) < length s \<and> x \<in> set (rx_run f (Star r) y))"
    unfolding rx_run_Star_set by blast
  then show ?case
  proof
    assume "x = (p, s)"
    then show ?thesis by (simp add: lastp_def star_nil)
  next
    assume "\<exists>y \<in> set (rx_run f r (p, s)). length (snd y) < length s \<and> x \<in> set (rx_run f (Star r) y)"
    then obtain y where y: "y \<in> set (rx_run f r (p, s))" "length (snd y) < length s"
      "x \<in> set (rx_run f (Star r) y)" by blast
    from 6(1)[OF y(1)] obtain u where u: "s = u @ snd y" "sem f r p u (snd y)" "fst y = lastp p u"
      by auto
    from u(1) y(2) have ne: "u \<noteq> []" by auto
    from 6(2)[OF y] obtain v where v: "snd y = v @ snd x" "star_rel (sem f r) (fst y) v (snd x)"
      "fst x = lastp (fst y) v" by auto
    have "star_rel (sem f r) p (u @ v) (snd x)"
      using u v ne by (auto simp: lastp_def intro: star_step)
    moreover have "s = (u @ v) @ snd x" using u v by simp
    moreover have "fst x = lastp p (u @ v)" using u v by (simp add: lastp_append)
    ultimately show ?thesis by (intro exI[of _ "u @ v"]) simp
  qed
qed

lemma rx_run_complete:
  "sem f r p w rest \<Longrightarrow> (lastp p w, rest) \<in> set (rx_run f r (p, w @ rest))"
proof (induction r arbitrary: p w rest)
  case (Atom a)
  then show ?case by (auto simp: lastp_def)
next
  case Bol
  then show ?case by (auto simp: lastp_def)
next
  case Eol
  then show ?case by (auto simp: lastp_def)
next
  case (Seq r1 r2)
  from Seq.prems obtain u v where uv: "w = u @ v" "sem f r1 p u (v @ rest)" "sem f r2 (lastp p u) v rest"
    by auto
  from Seq.IH(1)[OF uv(2)] have a: "(lastp p u, v @ rest) \<in> set (rx_run f r1 (p, u @ v @ rest))" .
  from Seq.IH(2)[OF uv(3)] have b: "(lastp (lastp p u) v, rest) \<in> set (rx_run f r2 (lastp p u, v @ rest))" .
  from a b have "(lastp (lastp p u) v, rest) \<in> (\<Union>y\<in>set (rx_run f r1 (p, u @ v @ rest)). set (rx_run f r2 y))"
    by blast
  then show ?case unfolding uv(1) by (simp add: lastp_append)
next
  case (Opt r)
  from Opt.prems have "w = [] \<or> sem f r p w rest" by simp
  then show ?case
  proof
    assume "w = []"
    then show ?thesis by (simp add: lastp_def)
  next
    assume "sem f r p w rest"
    from Opt.IH[OF this] show ?thesis by simp
  qed
next
  case (Star r)
  from Star.prems have "star_rel (sem f r) p w rest" by simp
  then show ?case
  proof (induction rule: star_rel.induct)
    case (star_nil p rest)
    show ?case by (simp add: lastp_def rx_run_Star_set[of f r p rest])
  next
    case (star_step p u v rest)
    from Star.IH[OF star_step(1)] have a: "(lastp p u, v @ rest) \<in> set (rx_run f r (p, u @ v @ rest))" .
    have l: "lastp p u = Some (last u)" using star_step(2) by (simp add: lastp_def)
    have len: "length (v @ rest) < length (u @ v @ rest)" using star_step(2) by simp
    from star_step(4) have b: "(lastp (Some (last u)) v, rest) \<in> set (rx_run f (Star r) (Some (last u), v @ rest))" .
    have "(Some (last u), v @ rest) \<in> {y \<in> set (rx_run f r (p, u @ v @ rest)). length (snd y) < length (u @ v @ rest)}"
      using a len l by simp
    with b have "(lastp (Some (last u)) v, rest) \<in> set (rx_run f (Star r) (p, u @ v @ rest))"
      unfolding rx_run_Star_set[of f r p "u @ v @ rest"] by blast
    then show ?case using l by (simp add: lastp_append)
  qed
qed

lemma rx_run_sem:
  "set (rx_run f r (p, s)) = {(lastp p w, rest) | w rest. s = w @ rest \<and> sem f r p w rest}"
proof (intro set_eqI iffI)
  fix x assume "x \<in> set (rx_run f r (p, s))"
  from rx_run_sound[OF this] show "x \<in> {(lastp p w, rest) | w rest. s = w @ rest \<and> sem f r p w rest}"
    by (cases x) auto
next
  fix x assume "x \<in> {(lastp p w, rest) | w rest. s = w @ rest \<and> sem f r p w rest}"
  then show "x \<in> set (rx_run f r (p, s))" using rx_run_complete by auto
qed

lemma re_match_sem: "re_match f r s \<longleftrightarrow> (\<exists>w rest. s = w @ rest \<and> sem f r None w rest)"
proof -
  have "re_match f r s \<longleftrightarrow> set (rx_run f r (None, s)) \<noteq> {}"
    by (simp add: re_match_def)
  then show ?thesis unfolding rx_run_sem by auto
qed

declare atom_ok.simps [simp del]

lemma star_rel_atom:
  "star_rel (sem f (Atom a)) p x rest \<longleftrightarrow> (\<forall>c\<in>set x. atom_ok f a c)"
proof
  assume "star_rel (sem f (Atom a)) p x rest"
  then show "\<forall>c\<in>set x. atom_ok f a c"
    by (induction rule: star_rel.induct) auto
next
  assume "\<forall>c\<in>set x. atom_ok f a c"
  then show "star_rel (sem f (Atom a)) p x rest"
  proof (induction x arbitrary: p)
    case Nil
    show ?case by (rule star_nil)
  next
    case (Cons c x)
    have 1: "sem f (Atom a) p [c] (x @ rest)" using Cons.prems by simp
    have 2: "star_rel (sem f (Atom a)) (Some (last [c])) x rest" using Cons by simp
    from star_step[OF 1 _ 2] show ?case by simp
  qed
qed

lemma sem_star_atom: "sem f (Star (Atom a)) p x rest \<longleftrightarrow> (\<forall>c\<in>set x. atom_ok f a c)"
  using star_rel_atom[of f a p x rest] by (simp only: sem.simps(6))

lemma sem_plus_atom:
  "sem f (plus_rx (Atom a)) p x rest \<longleftrightarrow> x \<noteq> [] \<and> (\<forall>c\<in>set x. atom_ok f a c)"
proof
  assume "sem f (plus_rx (Atom a)) p x rest"
  then obtain u v where uv: "x = u @ v" "sem f (Atom a) p u (v @ rest)" "sem f (Star (Atom a)) (lastp p u) v rest"
    unfolding plus_rx_def sem.simps(4) by blast
  from uv(3) have "\<forall>c\<in>set v. atom_ok f a c" by (simp only: sem_star_atom)
  moreover from uv(2) obtain c where "u = [c]" "atom_ok f a c" by auto
  ultimately show "x \<noteq> [] \<and> (\<forall>c\<in>set x. atom_ok f a c)"
    using uv(1) by auto
next
  assume a: "x \<noteq> [] \<and> (\<forall>c\<in>set x. atom_ok f a c)"
  then obtain c cs where x: "x = [c] @ cs" by (cases x) auto
  with a have 1: "sem f (Atom a) p [c] (cs @ rest)" by simp
  from x a have "\<forall>c\<in>set cs. atom_ok f a c" by simp
  then have 2: "sem f (Star (Atom a)) (lastp p [c]) cs rest" by (simp only: sem_star_atom)
  from 1 2 show "sem f (plus_rx (Atom a)) p x rest"
    unfolding plus_rx_def x sem.simps(4) by blast
qed

lemma sem_lits:
  "sem f (lits w r) p x rest \<longleftrightarrow>
     (\<exists>u v. x = u @ v \<and> list_all2 (\<lambda>a c. atom_ok f (Chr a) c) w u \<and> sem f r (lastp p u) v rest)"
proof (induction w arbitrary: p x)
  case Nil
  have "lits [] r = r" by (simp add: lits_def)
  moreover have "(\<exists>u v. x = u @ v \<and> list_all2 (\<lambda>a c. atom_ok f (Chr a) c) [] u \<and> sem f r (lastp p u) v rest)
      \<longleftrightarrow> sem f r p x rest"
  proof
    assume "\<exists>u v. x = u @ v \<and> list_all2 (\<lambda>a c. atom_ok f (Chr a) c) [] u \<and> sem f r (lastp p u) v rest"
    then obtain u v where "x = u @ v" "u = []" "sem f r (lastp p u) v rest" by auto
    then show "sem f r p x rest" by (simp add: lastp_Nil)
  next
    assume "sem f r p x rest"
    then have "x = [] @ x \<and> list_all2 (\<lambda>a c. atom_ok f (Chr a) c) [] [] \<and> sem f r (lastp p []) x rest"
      by (simp add: lastp_Nil)
    then show "\<exists>u v. x = u @ v \<and> list_all2 (\<lambda>a c. atom_ok f (Chr a) c) [] u \<and> sem f r (lastp p u) v rest"
      by blast
  qed
  ultimately show ?case by simp
next
  case (Cons a w)
  have l: "lits (a # w) r = Seq (Atom (Chr a)) (lits w r)" by (simp add: lits_def)
  have "sem f (lits (a # w) r) p x rest \<longleftrightarrow>
        (\<exists>c v. x = c # v \<and> atom_ok f (Chr a) c \<and> sem f (lits w r) (Some c) v rest)"
  proof
    assume "sem f (lits (a # w) r) p x rest"
    then obtain u v where "x = u @ v" "sem f (Atom (Chr a)) p u (v @ rest)" "sem f (lits w r) (lastp p u) v rest"
      unfolding l sem.simps(4) by blast
    then show "\<exists>c v. x = c # v \<and> atom_ok f (Chr a) c \<and> sem f (lits w r) (Some c) v rest"
      by (auto simp: lastp_single)
  next
    assume "\<exists>c v. x = c # v \<and> atom_ok f (Chr a) c \<and> sem f (lits w r) (Some c) v rest"
    then obtain c v where cv: "x = [c] @ v" "atom_ok f (Chr a) c" "sem f (lits w r) (Some c) v rest" by auto
    then have "sem f (Atom (Chr a)) p [c] (v @ rest)" "sem f (lits w r) (lastp p [c]) v rest"
      by (simp_all add: lastp_single)
    with cv(1) show "sem f (lits (a # w) r) p x rest"
      unfolding l sem.simps(4) by blast
  qed
  also have "\<dots> \<longleftrightarrow> (\<exists>c v. x = c # v \<and> atom_ok f (Chr a) c \<and>
        (\<exists>u v'. v = u @ v' \<and> list_all2 (\<lambda>a c. atom_ok f (Chr a) c) w u \<and> sem f r (lastp (Some c) u) v' rest))"
    by (simp only: Cons.IH)
  also have "\<dots> \<longleftrightarrow> (\<exists>u v. x = u @ v \<and> list_all2 (\<lambda>a c. atom_ok f (Chr a) c) (a # w) u \<and> sem f r (lastp p u) v rest)"
  proof
    assume "\<exists>c v. x = c # v \<and> atom_ok f (Chr a) c \<and>
        (\<exists>u v'. v = u @ v' \<and> list_all2 (\<lambda>a c. atom_ok f (Chr a) c) w u \<and> sem f r (lastp (Some c) u) v' rest)"
    then obtain c u v' where h: "x = (c # u) @ v'" "atom_ok f (Chr a) c"
      "list_all2 (\<lambda>a c. atom_ok f (Chr a) c) w u" "sem f r (lastp (Some c) u) v' rest" by auto
    have "lastp (Some c) u = lastp p (c # u)" by (simp add: lastp_def)
    with h show "\<exists>u v. x = u @ v \<and> list_all2 (\<lambda>a c. atom_ok f (Chr a) c) (a # w) u \<and> sem f r (lastp p u) v rest"
      by (intro exI[of _ "c # u"] exI[of _ v']) simp
  next
    assume "\<exists>u v. x = u @ v \<and> list_all2 (\<lambda>a c. atom_ok f (Chr a) c) (a # w) u \<and> sem f r (lastp p u) v rest"
    then obtain u v where h: "x = u @ v" "list_all2 (\<lambda>a c. atom_ok f (Chr a) c) (a # w) u" "sem f r (lastp p u) v rest"
      by blast
    from h(2) obtain c u' where u: "u = c # u'" "atom_ok f (Chr a) c" "list_all2 (\<lambda>a c. atom_ok f (Chr a) c) w u'"
      by (cases u) auto
    have l: "lastp (Some c) u' = lastp p (c # u')" by (simp add: lastp_def)
    have "u' @ v = u' @ v \<and> list_all2 (\<lambda>a c. atom_ok f (Chr a) c) w u' \<and> sem f r (lastp (Some c) u') v rest"
      using h u l by simp
    then have "\<exists>u2 v'. u' @ v = u2 @ v' \<and> list_all2 (\<lambda>a c. atom_ok f (Chr a) c) w u2 \<and> sem f r (lastp (Some c) u2) v' rest"
      by blast
    moreover have "x = c # (u' @ v)" using h u by simp
    ultimately show "\<exists>c v. x = c # v \<and> atom_ok f (Chr a) c \<and>
        (\<exists>u v'. v = u @ v' \<and> list_all2 (\<lambda>a c. atom_ok f (Chr a) c) w u \<and> sem f r (lastp (Some c) u) v' rest)"
      using u(2) by blast
  qed
  finally show ?case .
qed

lemma lits_ic: "list_all2 (\<lambda>a c. atom_ok flags_ic (Chr a) c) w u \<longleftrightarrow> lower u = lower w"
proof (induction w arbitrary: u)
  case Nil
  then show ?case by (simp add: lower_def)
next
  case (Cons a w)
  then show ?case by (cases u) (auto simp: lower_def flags_ic_def atom_ok.simps)
qed

lemma re_match_bol:
  "re_match f (Seq Bol r) t \<longleftrightarrow> (\<exists>w rest. t = w @ rest \<and> sem f r None w rest)"
  unfolding re_match_sem by (auto simp: lastp_def)

lemma lower_chr_range: "lower_chr c \<in> set ascii_lowercase \<or> lower_chr c = c"
proof (cases "map_of (zip ascii_uppercase ascii_lowercase) c")
  case None
  then show ?thesis by (simp add: lower_chr_def)
next
  case (Some l)
  then have "(c, l) \<in> set (zip ascii_uppercase ascii_lowercase)" by (rule map_of_SomeD)
  then have "l \<in> set ascii_lowercase" by (rule set_zip_rightD)
  with Some show ?thesis by (simp add: lower_chr_def)
qed

lemma lower_chr_fixed: "x \<notin> set ascii_lowercase \<Longrightarrow> lower_chr c = x \<Longrightarrow> c = x"
  using lower_chr_range[of c] by auto

lemma lower_chr_colon: "lower_chr c = CHR '':'' \<longleftrightarrow> c = CHR '':''"
proof
  assume "lower_chr c = CHR '':''"
  then show "c = CHR '':''" by (rule lower_chr_fixed[rotated]) (simp add: ascii_lowercase_def)
next
  assume "c = CHR '':''"
  then show "lower_chr c = CHR '':''"
    by (simp add: lower_chr_def ascii_lowercase_def ascii_uppercase_def)
qed

lemma lower_chr_eq: "lower_chr c = CHR ''='' \<longleftrightarrow> c = CHR ''=''"
proof
  assume "lower_chr c = CHR ''=''"
  then show "c = CHR ''=''" by (rule lower_chr_fixed[rotated]) (simp add: ascii_lowercase_def)
next
  assume "c = CHR ''=''"
  then show "lower_chr c = CHR ''=''"
    by (simp add: lower_chr_def ascii_lowercase_def ascii_uppercase_def)
qed

lemma lower_chr_dash: "lower_chr c = CHR ''-'' \<longleftrightarrow> c = CHR ''-''"
proof
  assume "lower_chr c = CHR ''-''"
  then show "c = CHR ''-''" by (rule lower_chr_fixed[rotated]) (simp add: ascii_lowercase_def)
next
  assume "c = CHR ''-''"
  then show "lower_chr c = CHR ''-''"
    by (simp add: lower_chr_def ascii_lowercase_def ascii_uppercase_def)
qed

lemma atom_ok_colon: "atom_ok flags_ic (Chr CHR '':'') c \<longleftrightarrow> c = CHR '':''"
  using lower_chr_colon[of c] lower_chr_colon[of "CHR '':''"] by (simp add: flags_ic_def atom_ok.simps)

lemma atom_ok_eq: "atom_ok flags_ic (Chr CHR ''='') c \<longleftrightarrow> c = CHR ''=''"
  using lower_chr_eq[of c] lower_chr_eq[of "CHR ''=''"] by (simp add: flags_ic_def atom_ok.simps)

lemma atom_ok_dash: "atom_ok flags_ic (Chr CHR ''-'') c \<longleftrightarrow> c = CHR ''-''"
  using lower_chr_dash[of c] lower_chr_dash[of "CHR ''-''"] by (simp add: flags_ic_def atom_ok.simps)

lemma sem_eol_ic: "sem flags_ic Eol p v rest \<longleftrightarrow> v = [] \<and> (rest = [] \<or> rest = [nl])"
  by (simp add: flags_ic_def)

lemma sem_opt_colon: "sem flags_ic (Opt (Atom (Chr CHR '':''))) p u rest \<longleftrightarrow> u = [] \<or> u = '':''"
  using atom_ok_colon by (simp)

lemma sem_colon_end:
  "sem flags_ic colon_end p v rest \<longleftrightarrow> (v = [] \<or> v = '':'') \<and> (rest = [] \<or> rest = [nl])"
proof -
  have "sem flags_ic colon_end p v rest \<longleftrightarrow>
        (\<exists>u w. v = u @ w \<and> sem flags_ic (Opt (Atom (Chr CHR '':''))) p u (w @ rest) \<and> sem flags_ic Eol (lastp p u) w rest)"
    unfolding colon_end_def sem.simps(4) ..
  also have "\<dots> \<longleftrightarrow> (\<exists>u w. v = u @ w \<and> (u = [] \<or> u = '':'') \<and> w = [] \<and> (rest = [] \<or> rest = [nl]))"
    unfolding sem_opt_colon sem_eol_ic ..
  also have "\<dots> \<longleftrightarrow> (v = [] \<or> v = '':'') \<and> (rest = [] \<or> rest = [nl])"
    by auto
  finally show ?thesis .
qed

lemma atom_ok_dot: "atom_ok flags_ic Dot c \<longleftrightarrow> c \<noteq> nl"
  by (simp add: atom_ok.simps flags_ic_def)

lemma sem_any_run: "sem flags_ic any_run p x rest \<longleftrightarrow> nl \<notin> set x"
  unfolding any_run_def sem_star_atom atom_ok_dot by auto

lemma sem_lits_ic:
  "sem flags_ic (lits w r) p x rest \<longleftrightarrow>
     (\<exists>u v. x = u @ v \<and> lower u = lower w \<and> sem flags_ic r (lastp p u) v rest)"
  unfolding sem_lits lits_ic ..

lemma sem_seq: "sem f (Seq r1 r2) p w rest \<longleftrightarrow>
    (\<exists>u v. w = u @ v \<and> sem f r1 p u (v @ rest) \<and> sem f r2 (lastp p u) v rest)"
  by simp

lemma lower_append: "lower (a @ b) = lower a @ lower b"
  by (simp add: lower_def)

lemma lower_eq_append: "lower t = a @ b \<Longrightarrow> \<exists>ta tb. t = ta @ tb \<and> lower ta = a \<and> lower tb = b"
  unfolding lower_def by (metis map_eq_append_conv)

lemma lower_Nil: "lower t = [] \<longleftrightarrow> t = []"
  by (simp add: lower_def)

lemma lower_empty: "lower [] = []"
  by (simp add: lower_def)

lemma lower_colon: "lower t = '':'' \<longleftrightarrow> t = '':''"
proof
  assume "lower t = '':''"
  then obtain c where c: "t = [c]" "lower_chr c = CHR '':''" by (auto simp: lower_def)
  then show "t = '':''" by (simp add: lower_chr_colon)
next
  assume "t = '':''"
  then show "lower t = '':''" using lower_chr_colon[of "CHR '':''"] by (simp add: lower_def)
qed

text \<open>Patterns 5 to 8: a literal caption, an optional colon, the end.\<close>

lemma match_literal:
  assumes "nl \<notin> set t"
  shows "re_match flags_ic (Seq Bol (lits w colon_end)) t \<longleftrightarrow> lower t = lower w \<or> lower t = lower w @ '':''"
proof -
  have "re_match flags_ic (Seq Bol (lits w colon_end)) t \<longleftrightarrow>
        (\<exists>x rest u v. t = x @ rest \<and> x = u @ v \<and> lower u = lower w \<and> (v = [] \<or> v = '':'') \<and> (rest = [] \<or> rest = [nl]))"
    unfolding re_match_bol sem_lits_ic sem_colon_end by blast
  also have "\<dots> \<longleftrightarrow> (\<exists>u v. t = u @ v \<and> lower u = lower w \<and> (v = [] \<or> v = '':''))"
    using assms by auto
  also have "\<dots> \<longleftrightarrow> lower t = lower w \<or> lower t = lower w @ '':''"
  proof
    assume "\<exists>u v. t = u @ v \<and> lower u = lower w \<and> (v = [] \<or> v = '':'')"
    then obtain u v where "t = u @ v" "lower u = lower w" "v = [] \<or> v = '':''" by blast
    then show "lower t = lower w \<or> lower t = lower w @ '':''"
      using lower_colon[of "'':''"] by (auto simp: lower_append lower_empty)
  next
    assume "lower t = lower w \<or> lower t = lower w @ '':''"
    then show "\<exists>u v. t = u @ v \<and> lower u = lower w \<and> (v = [] \<or> v = '':'')"
    proof
      assume "lower t = lower w"
      then have "t = t @ [] \<and> lower t = lower w \<and> ([] = [] \<or> [] = '':'')" by simp
      then show ?thesis by blast
    next
      assume "lower t = lower w @ '':''"
      from lower_eq_append[OF this] obtain ta tb where "t = ta @ tb" "lower ta = lower w" "lower tb = '':''"
        by blast
      then show ?thesis using lower_colon[of tb] by blast
    qed
  qed
  finally show ?thesis .
qed


text \<open>Patterns 1 and 2: one character repeated, nothing else.\<close>

lemma match_repeated:
  assumes "nl \<notin> set t" and "\<And>c. atom_ok flags_ic (Chr a) c \<longleftrightarrow> c = a"
  shows "re_match flags_ic (Seq Bol (Seq (plus_rx (Atom (Chr a))) Eol)) t \<longleftrightarrow> t \<noteq> [] \<and> set t \<subseteq> {a}"
proof -
  have "re_match flags_ic (Seq Bol (Seq (plus_rx (Atom (Chr a))) Eol)) t \<longleftrightarrow>
        (\<exists>x rest u v. t = x @ rest \<and> x = u @ v \<and> (u \<noteq> [] \<and> (\<forall>c\<in>set u. c = a)) \<and> v = [] \<and> (rest = [] \<or> rest = [nl]))"
    unfolding re_match_bol sem_seq sem_plus_atom sem_eol_ic assms(2) by blast
  also have "\<dots> \<longleftrightarrow> t \<noteq> [] \<and> (\<forall>c\<in>set t. c = a)"
    using assms(1) by auto
  finally show ?thesis by auto
qed

text \<open>Pattern 10: blank.\<close>

lemma match_blank:
  assumes "nl \<notin> set t"
  shows "re_match flags_ic (Seq Bol (Seq (Star (Atom Space)) Eol)) t \<longleftrightarrow> is_blank t"
proof -
  have "re_match flags_ic (Seq Bol (Seq (Star (Atom Space)) Eol)) t \<longleftrightarrow>
        (\<exists>x rest u v. t = x @ rest \<and> x = u @ v \<and> (\<forall>c\<in>set u. is_space c) \<and> v = [] \<and> (rest = [] \<or> rest = [nl]))"
    unfolding re_match_bol sem_seq sem_star_atom sem_eol_ic atom_ok.simps by blast
  also have "\<dots> \<longleftrightarrow> (\<forall>c\<in>set t. is_space c)"
    using assms(1) by auto
  finally show ?thesis by (simp add: is_blank_def)
qed

text \<open>Pattern 3: \<open>sample\<close> and later \<open>events\<close>, anywhere in the line.\<close>

lemma match_sample_events:
  assumes "nl \<notin> set t"
  shows "re_match flags_ic
           (Seq Bol (Seq any_run (lits ''Sample'' (Seq any_run (lits ''Events'' (Seq any_run colon_end)))))) t
         \<longleftrightarrow> (\<exists>a b c. lower t = a @ lower ''Sample'' @ b @ lower ''Events'' @ c)"
proof
  assume "re_match flags_ic
           (Seq Bol (Seq any_run (lits ''Sample'' (Seq any_run (lits ''Events'' (Seq any_run colon_end)))))) t"
  then obtain u1 u2 u3 u4 r where "t = u1 @ u2 @ u3 @ u4 @ r" "lower u2 = lower ''Sample''" "lower u4 = lower ''Events''"
    unfolding re_match_bol sem_seq sem_lits_ic sem_any_run sem_colon_end by auto
  then have "lower t = lower u1 @ lower ''Sample'' @ lower u3 @ lower ''Events'' @ lower r"
    by (simp add: lower_append)
  then show "\<exists>a b c. lower t = a @ lower ''Sample'' @ b @ lower ''Events'' @ c" by blast
next
  assume "\<exists>a b c. lower t = a @ lower ''Sample'' @ b @ lower ''Events'' @ c"
  then obtain a b c where "lower t = a @ lower ''Sample'' @ b @ lower ''Events'' @ c" by blast
  from lower_eq_append[OF this] obtain u1 r1 where 1: "t = u1 @ r1" "lower r1 = lower ''Sample'' @ b @ lower ''Events'' @ c"
    by blast
  from lower_eq_append[OF 1(2)] obtain u2 r2 where 2: "r1 = u2 @ r2" "lower u2 = lower ''Sample''" "lower r2 = b @ lower ''Events'' @ c"
    by blast
  from lower_eq_append[OF 2(3)] obtain u3 r3 where 3: "r2 = u3 @ r3" "lower r3 = lower ''Events'' @ c"
    by blast
  from lower_eq_append[OF 3(2)] obtain u4 u5 where 4: "r3 = u4 @ u5" "lower u4 = lower ''Events''"
    by blast
  have t: "t = u1 @ u2 @ u3 @ u4 @ u5" using 1 2 3 4 by simp
  with assms have nn: "nl \<notin> set u1" "nl \<notin> set u3" "nl \<notin> set u5" by auto
  have e: "sem flags_ic (Seq any_run colon_end) p u5 []" for p
    unfolding sem_seq sem_any_run sem_colon_end using nn(3)
    by (intro exI[of _ u5] exI[of _ "[]"]) simp
  have d: "sem flags_ic (lits ''Events'' (Seq any_run colon_end)) p (u4 @ u5) []" for p
    unfolding sem_lits_ic using 4(2) e by blast
  have c: "sem flags_ic (Seq any_run (lits ''Events'' (Seq any_run colon_end))) p (u3 @ u4 @ u5) []" for p
    unfolding sem_seq[of _ any_run] sem_any_run using nn(2) d by blast
  have b: "sem flags_ic (lits ''Sample'' (Seq any_run (lits ''Events'' (Seq any_run colon_end)))) p (u2 @ u3 @ u4 @ u5) []" for p
    unfolding sem_lits_ic[of "''Sample''"] using 2(2) c by blast
  have a: "sem flags_ic (Seq any_run (lits ''Sample'' (Seq any_run (lits ''Events'' (Seq any_run colon_end))))) None
             (u1 @ u2 @ u3 @ u4 @ u5) []"
    unfolding sem_seq[of _ any_run "lits ''Sample'' _"] sem_any_run using nn(1) b by blast
  show "re_match flags_ic
           (Seq Bol (Seq any_run (lits ''Sample'' (Seq any_run (lits ''Events'' (Seq any_run colon_end)))))) t"
    unfolding re_match_bol using a t by (intro exI[of _ t] exI[of _ "[]"]) simp
qed


text \<open>Pattern 4: \<open>sample\<close> first, \<open>logs\<close> or \<open>logs:\<close> last.\<close>

lemma match_sample_logs:
  assumes "nl \<notin> set t"
  shows "re_match flags_ic (Seq Bol (lits ''Sample'' (Seq any_run (lits ''logs'' colon_end)))) t
         \<longleftrightarrow> (\<exists>b. lower t = lower ''Sample'' @ b @ lower ''logs'' \<or>
                  lower t = lower ''Sample'' @ b @ lower ''logs'' @ '':'')"
proof
  assume "re_match flags_ic (Seq Bol (lits ''Sample'' (Seq any_run (lits ''logs'' colon_end)))) t"
  then have "\<exists>w r u1 v1 u2 v2 u3 v. t = w @ r \<and> w = u1 @ v1 \<and> lower u1 = lower ''Sample'' \<and>
      v1 = u2 @ v2 \<and> nl \<notin> set u2 \<and> v2 = u3 @ v \<and> lower u3 = lower ''logs'' \<and>
      (v = [] \<or> v = '':'') \<and> (r = [] \<or> r = [nl])"
    unfolding re_match_bol sem_seq sem_lits_ic sem_any_run sem_colon_end by blast
  then obtain u1 u2 u3 v r where h: "t = u1 @ u2 @ u3 @ v @ r" "lower u1 = lower ''Sample''" "lower u3 = lower ''logs''"
      "v = [] \<or> v = '':''" "r = [] \<or> r = [nl]"
    by (elim exE conjE) simp
  with assms have r: "r = []" by auto
  from h(4) show "\<exists>b. lower t = lower ''Sample'' @ b @ lower ''logs'' \<or>
                  lower t = lower ''Sample'' @ b @ lower ''logs'' @ '':''"
  proof
    assume "v = []"
    with h r have "lower t = lower ''Sample'' @ lower u2 @ lower ''logs''" by (simp add: lower_append)
    then show ?thesis by blast
  next
    assume "v = '':''"
    with h r have "lower t = lower ''Sample'' @ lower u2 @ lower ''logs'' @ '':''"
      using lower_colon[of "'':''"] by (simp add: lower_append)
    then show ?thesis by blast
  qed
next
  assume "\<exists>b. lower t = lower ''Sample'' @ b @ lower ''logs'' \<or>
                  lower t = lower ''Sample'' @ b @ lower ''logs'' @ '':''"
  then obtain b where b: "lower t = lower ''Sample'' @ b @ lower ''logs'' \<or>
                  lower t = lower ''Sample'' @ b @ lower ''logs'' @ '':''" by blast
  define v :: string where "v = (if lower t = lower ''Sample'' @ b @ lower ''logs'' then [] else '':'')"
  have v: "lower t = lower ''Sample'' @ b @ lower ''logs'' @ v" "v = [] \<or> v = '':''"
    using b by (auto simp: v_def)
  from lower_eq_append[OF v(1)] obtain u1 r1 where 1: "t = u1 @ r1" "lower u1 = lower ''Sample''"
      "lower r1 = b @ lower ''logs'' @ v" by blast
  from lower_eq_append[OF 1(3)] obtain u2 r2 where 2: "r1 = u2 @ r2" "lower r2 = lower ''logs'' @ v" by blast
  from lower_eq_append[OF 2(2)] obtain u3 v' where 3: "r2 = u3 @ v'" "lower u3 = lower ''logs''" "lower v' = v" by blast
  have v': "v' = [] \<or> v' = '':''"
    using v(2) 3(3) lower_Nil[of v'] lower_colon[of v'] by auto
  have t: "t = u1 @ u2 @ u3 @ v'" using 1 2 3 by simp
  with assms have nn: "nl \<notin> set u2" by auto
  have c: "sem flags_ic (lits ''logs'' colon_end) p (u3 @ v') []" for p
    unfolding sem_lits_ic sem_colon_end using 3(2) v' by blast
  have b: "sem flags_ic (Seq any_run (lits ''logs'' colon_end)) p (u2 @ u3 @ v') []" for p
    unfolding sem_seq sem_any_run using nn c by blast
  have a: "sem flags_ic (lits ''Sample'' (Seq any_run (lits ''logs'' colon_end))) None (u1 @ u2 @ u3 @ v') []"
    unfolding sem_lits_ic[of "''Sample''"] using 1(2) b by blast
  show "re_match flags_ic (Seq Bol (lits ''Sample'' (Seq any_run (lits ''logs'' colon_end)))) t"
    unfolding re_match_bol using a t by (intro exI[of _ t] exI[of _ "[]"]) simp
qed

lemma lower_chr_id: "c \<notin> set ascii_uppercase \<Longrightarrow> lower_chr c = c"
proof -
  assume "c \<notin> set ascii_uppercase"
  then have "c \<notin> fst ` set (zip ascii_uppercase ascii_lowercase)"
    by (auto dest: set_zip_leftD)
  then have "map_of (zip ascii_uppercase ascii_lowercase) c = None"
    by (simp add: map_of_eq_None_iff)
  then show ?thesis by (simp add: lower_chr_def)
qed

lemma lower_chr_digit: "is_digit c \<Longrightarrow> lower_chr c = c"
  by (rule lower_chr_id) (auto simp: ascii_uppercase_def is_digit_def)

lemma is_digit_lower_chr: "is_digit (lower_chr c) \<Longrightarrow> lower_chr c = c"
proof -
  assume "is_digit (lower_chr c)"
  then have "lower_chr c \<notin> set ascii_lowercase" by (auto simp: ascii_lowercase_def is_digit_def)
  with lower_chr_range[of c] show ?thesis by simp
qed

lemma lower_digits: "\<forall>d\<in>set ds. is_digit d \<Longrightarrow> lower ds = ds"
  unfolding lower_def by (simp add: map_idI lower_chr_digit)

lemma digits_of_lower: "\<forall>d\<in>set (lower ds). is_digit d \<Longrightarrow> lower ds = ds"
proof -
  assume "\<forall>d\<in>set (lower ds). is_digit d"
  then have "\<And>c. c \<in> set ds \<Longrightarrow> lower_chr c = c"
    by (simp add: lower_def is_digit_lower_chr)
  then show ?thesis unfolding lower_def by (rule map_idI)
qed

text \<open>Pattern 9: \<open>event\<close>, a space, digits, an optional colon.\<close>

lemma match_event:
  assumes "nl \<notin> set t"
  shows "re_match flags_ic (Seq Bol (lits ''Event '' (Seq (plus_rx (Atom Digit)) colon_end))) t
         \<longleftrightarrow> (\<exists>ds. ds \<noteq> [] \<and> (\<forall>d\<in>set ds. is_digit d) \<and>
                  (lower t = lower ''Event '' @ ds \<or> lower t = lower ''Event '' @ ds @ '':''))"
proof
  assume "re_match flags_ic (Seq Bol (lits ''Event '' (Seq (plus_rx (Atom Digit)) colon_end))) t"
  then have "\<exists>w r u v1 ds v. t = w @ r \<and> w = u @ v1 \<and> lower u = lower ''Event '' \<and>
      v1 = ds @ v \<and> (ds \<noteq> [] \<and> (\<forall>c\<in>set ds. is_digit c)) \<and>
      (v = [] \<or> v = '':'') \<and> (r = [] \<or> r = [nl])"
    unfolding re_match_bol sem_seq sem_lits_ic sem_plus_atom sem_colon_end atom_ok.simps(4) by blast
  then obtain u ds v r where h: "t = u @ ds @ v @ r" "lower u = lower ''Event ''" "ds \<noteq> []"
      "\<forall>c\<in>set ds. is_digit c" "v = [] \<or> v = '':''" "r = [] \<or> r = [nl]"
    by (elim exE conjE) simp
  with assms have r: "r = []" by auto
  from h(4) have l: "lower ds = ds" by (rule lower_digits)
  have "lower t = lower ''Event '' @ ds \<or> lower t = lower ''Event '' @ ds @ '':''"
    using h(1,2,5) r l lower_colon[of "'':''"] by (auto simp: lower_append lower_empty)
  with h(3,4) show "\<exists>ds. ds \<noteq> [] \<and> (\<forall>d\<in>set ds. is_digit d) \<and>
                  (lower t = lower ''Event '' @ ds \<or> lower t = lower ''Event '' @ ds @ '':'')"
    by blast
next
  assume "\<exists>ds. ds \<noteq> [] \<and> (\<forall>d\<in>set ds. is_digit d) \<and>
                  (lower t = lower ''Event '' @ ds \<or> lower t = lower ''Event '' @ ds @ '':'')"
  then obtain ds where d: "ds \<noteq> []" "\<forall>d\<in>set ds. is_digit d"
      "lower t = lower ''Event '' @ ds \<or> lower t = lower ''Event '' @ ds @ '':''" by blast
  define v :: string where "v = (if lower t = lower ''Event '' @ ds then [] else '':'')"
  have h: "lower t = lower ''Event '' @ ds @ v" "v = [] \<or> v = '':''"
    using d by (auto simp: v_def)
  from lower_eq_append[OF h(1)] obtain u r1 where 1: "t = u @ r1" "lower u = lower ''Event ''" "lower r1 = ds @ v"
    by blast
  from lower_eq_append[OF 1(3)] obtain ds' v' where 2: "r1 = ds' @ v'" "lower ds' = ds" "lower v' = v" by blast
  have v': "v' = [] \<or> v' = '':''"
    using h(2) 2(3) lower_Nil[of v'] lower_colon[of v'] by auto
  have "\<forall>d\<in>set (lower ds'). is_digit d" using 2(2) d(2) by simp
  then have "lower ds' = ds'" by (rule digits_of_lower)
  with 2(2) have ds: "ds' = ds" by simp
  have t: "t = u @ ds @ v'" using 1 2 ds by simp
  have dg: "\<forall>c\<in>set ds. atom_ok flags_ic Digit c" using d(2) by (simp add: atom_ok.simps)
  have b: "sem flags_ic (Seq (plus_rx (Atom Digit)) colon_end) p (ds @ v') []" for p
    unfolding sem_seq sem_plus_atom sem_colon_end using d(1) dg v' by blast
  have a: "sem flags_ic (lits ''Event '' (Seq (plus_rx (Atom Digit)) colon_end)) None (u @ ds @ v') []"
    unfolding sem_lits_ic using 1(2) b by blast
  show "re_match flags_ic (Seq Bol (lits ''Event '' (Seq (plus_rx (Atom Digit)) colon_end))) t"
    unfolding re_match_bol using a t by (intro exI[of _ t] exI[of _ "[]"]) simp
qed

end
